theory Spec2Isabelle
  imports Complex_Main "HOL-Library.Sublist"
begin

section \<open>JavaScript string primitives\<close>

text \<open>
  JavaScript strings are modelled as character lists. Only the operations the scraper
  uses are embedded: \<open>includes\<close>, \<open>startsWith\<close>, \<open>endsWith\<close>, \<open>split\<close> on a
  one-character separator, \<open>slice(0, -1)\<close>, \<open>trim\<close>, \<open>toLowerCase\<close> and the
  short-circuit \<open>||\<close> on strings (the empty string is the only falsy string).
\<close>

definition startsWith :: "string \<Rightarrow> string \<Rightarrow> bool" where
  "startsWith s p = (take (length p) s = p)"

definition endsWith :: "string \<Rightarrow> string \<Rightarrow> bool" where
  "endsWith s p = (length p \<le> length s \<and> drop (length s - length p) s = p)"

fun str_includes :: "string \<Rightarrow> string \<Rightarrow> bool" where
  "str_includes [] p = (p = [])"
| "str_includes (c # cs) p = (startsWith (c # cs) p \<or> str_includes cs p)"

text \<open>\<open>s.split(c)\<close> for a separator of one character: never the empty array.\<close>

fun split_chr :: "char \<Rightarrow> string \<Rightarrow> string list" where
  "split_chr c [] = [[]]"
| "split_chr c (x # xs) =
     (if x = c then [] # split_chr c xs
      else (x # hd (split_chr c xs)) # tl (split_chr c xs))"

text \<open>\<open>s.slice(0, -1)\<close>: all but the last character.\<close>

definition slice_0_m1 :: "string \<Rightarrow> string" where
  "slice_0_m1 s = take (length s - 1) s"

text \<open>\<open>a || b\<close> on strings.\<close>

definition js_or :: "string \<Rightarrow> string \<Rightarrow> string" where
  "js_or a b = (if a \<noteq> [] then a else b)"

text \<open>
  \<open>toLowerCase\<close> on the letters \<open>A\<close> to \<open>Z\<close>. All strings the code compares a
  lower-cased text with are ASCII, and no other 8-bit character lower-cases to an ASCII one.
\<close>

definition lower_chr :: "char \<Rightarrow> char" where
  "lower_chr c =
     (case map_of (zip ''ABCDEFGHIJKLMNOPQRSTUVWXYZ'' ''abcdefghijklmnopqrstuvwxyz'') c of
        Some l \<Rightarrow> l
      | None \<Rightarrow> c)"

definition toLowerCase :: "string \<Rightarrow> string" where
  "toLowerCase s = map lower_chr s"

text \<open>\<open>trim\<close>: white space is removed at both ends.\<close>

definition is_space :: "char \<Rightarrow> bool" where
  "is_space c = (c \<in> set [CHR '' '', CHR 0x09, CHR 0x0A, CHR 0x0B, CHR 0x0C, CHR 0x0D, CHR 0xA0])"

definition trim :: "string \<Rightarrow> string" where
  "trim s = rev (dropWhile is_space (rev (dropWhile is_space s)))"

text \<open>
  \<open>(text.match(/lit/g) || []).length\<close> for a literal pattern: the matches are counted
  from the left and do not overlap. The second argument is the number of characters
  still covered by the last match.
\<close>

fun count_matches :: "string \<Rightarrow> nat \<Rightarrow> string \<Rightarrow> nat" where
  "count_matches lit k [] = 0"
| "count_matches lit k (c # cs) =
     (if 0 < k then count_matches lit (k - 1) cs
      else if startsWith (c # cs) lit then Suc (count_matches lit (length lit - 1) cs)
      else count_matches lit 0 cs)"

text \<open>
  \<open>Array.prototype.sort(cmp)\<close>: a stable sort. An element is placed before the first
  later element that does not compare smaller.
\<close>

fun insert_cmp :: "('a \<Rightarrow> 'a \<Rightarrow> int) \<Rightarrow> 'a \<Rightarrow> 'a list \<Rightarrow> 'a list" where
  "insert_cmp cmp x [] = [x]"
| "insert_cmp cmp x (y # ys) =
     (if cmp x y \<le> 0 then x # y # ys else y # insert_cmp cmp x ys)"

definition js_sort :: "('a \<Rightarrow> 'a \<Rightarrow> int) \<Rightarrow> 'a list \<Rightarrow> 'a list" where
  "js_sort cmp xs = foldr (insert_cmp cmp) xs []"

section \<open>JavaScript numbers\<close>

text \<open>
  A JavaScript number is a binary64 value: \<open>NaN\<close>, one of the two infinities, or a
  finite real. The exact result of an operation on finite values is rounded to the nearest
  value with a significand of 53 bits, ties to the even significand; the smallest spacing
  is 2 to the power -1074 (subnormal numbers), and a rounded magnitude of 2 to the power
  1024 or more becomes an infinity. The sign of zero is not modelled.
\<close>

text \<open>The exponent of a positive real: the integer part of its binary logarithm.\<close>

function ilog2 :: "real \<Rightarrow> int" where
  "ilog2 x = (if 2 \<le> x then ilog2 (x / 2) + 1
              else if 0 < x \<and> x < 1 then ilog2 (2 * x) - 1
              else 0)"
  by pat_completeness auto
termination
proof (relation "measure (\<lambda>x. if 1 \<le> x then nat \<lfloor>x\<rfloor> else nat \<lceil>1 / x\<rceil>)", goal_cases)
  case 1
  show ?case by simp
next
  case (2 x)
  then have "\<lfloor>x / 2\<rfloor> < \<lfloor>x\<rfloor>" by linarith
  with 2 show ?case by (auto simp: nat_less_iff)
next
  case (3 x)
  then have x: "0 < x" "x < 1" by auto
  show ?case
  proof (cases "1 \<le> 2 * x")
    case True
    then have "\<lfloor>2 * x\<rfloor> = 1" using x by linarith
    moreover have "1 < 1 / x" using x by simp
    then have "2 \<le> \<lceil>1 / x\<rceil>" by linarith
    ultimately show ?thesis using True x by (simp add: nat_less_iff)
  next
    case False
    then have h: "2 < 1 / x" using x by (simp add: field_simps)
    have "1 / (2 * x) = (1 / x) / 2" by simp
    then have "\<lceil>1 / (2 * x)\<rceil> < \<lceil>1 / x\<rceil>" using h by linarith
    with False x show ?thesis by (auto simp: nat_less_iff)
  qed
qed

declare ilog2.simps [simp del]

text \<open>Rounding to the nearest integer, ties to the even one.\<close>

definition round_half_even :: "real \<Rightarrow> int" where
  "round_half_even a =
     (let f = \<lfloor>a\<rfloor>; d = a - of_int f
      in if d < 1 / 2 then f else if 1 / 2 < d then f + 1 else if even f then f else f + 1)"

text \<open>The spacing of the binary64 values around \<open>x\<close>.\<close>

definition quantum :: "real \<Rightarrow> real" where
  "quantum x = 2 powi (max (ilog2 \<bar>x\<bar> - 52) (- 1074))"

text \<open>Rounding of a real to 53 bits, before the overflow test.\<close>

definition rnd :: "real \<Rightarrow> real" where
  "rnd x = quantum x * of_int (round_half_even (x / quantum x))"

datatype jsnum = NaN | NInf | PInf | Fin real

definition round64 :: "real \<Rightarrow> jsnum" where
  "round64 x =
     (let y = rnd x
      in if 2 ^ 1024 \<le> y then PInf else if y \<le> - (2 ^ 1024) then NInf else Fin y)"

text \<open>The operators \<open>+\<close> and \<open>*\<close>.\<close>

fun fadd :: "jsnum \<Rightarrow> jsnum \<Rightarrow> jsnum" where
  "fadd NaN y = NaN"
| "fadd x NaN = NaN"
| "fadd (Fin a) (Fin b) = round64 (a + b)"
| "fadd PInf NInf = NaN"
| "fadd NInf PInf = NaN"
| "fadd PInf y = PInf"
| "fadd x PInf = PInf"
| "fadd NInf y = NInf"
| "fadd x NInf = NInf"

fun fmul :: "jsnum \<Rightarrow> jsnum \<Rightarrow> jsnum" where
  "fmul NaN y = NaN"
| "fmul x NaN = NaN"
| "fmul (Fin a) (Fin b) = round64 (a * b)"
| "fmul (Fin a) y = (if a = 0 then NaN else if (0 < a) = (y = PInf) then PInf else NInf)"
| "fmul x (Fin b) = (if b = 0 then NaN else if (0 < b) = (x = PInf) then PInf else NInf)"
| "fmul x y = (if x = y then PInf else NInf)"

text \<open>The comparisons \<open><=\<close> and \<open><\<close>: false as soon as an operand is \<open>NaN\<close>.\<close>

fun jsle :: "jsnum \<Rightarrow> jsnum \<Rightarrow> bool" where
  "jsle NaN y = False"
| "jsle x NaN = False"
| "jsle NInf y = True"
| "jsle x PInf = True"
| "jsle (Fin a) (Fin b) = (a \<le> b)"
| "jsle x y = False"

fun jslt :: "jsnum \<Rightarrow> jsnum \<Rightarrow> bool" where
  "jslt NaN y = False"
| "jslt x NaN = False"
| "jslt (Fin a) (Fin b) = (a < b)"
| "jslt NInf NInf = False"
| "jslt PInf y = False"
| "jslt x NInf = False"
| "jslt x y = True"

text \<open>An integer counter read as a number.\<close>

definition num :: "int \<Rightarrow> jsnum" where
  "num i = round64 (of_int i)"

text \<open>
  The values a JavaScript variable can hold: every value of \<open>jsnum\<close> whose finite
  part is left unchanged by the rounding.
\<close>

definition is_double :: "jsnum \<Rightarrow> bool" where
  "is_double x = (case x of Fin v \<Rightarrow> round64 v = Fin v | _ \<Rightarrow> True)"

text \<open>
  \<open>xs.slice(0, end)\<close>: the end is truncated towards zero (\<open>NaN\<close> counts as 0), a
  negative end counts from the end of the array, and the result is cut to the array.
\<close>

definition slice_end :: "jsnum \<Rightarrow> nat \<Rightarrow> nat" where
  "slice_end c len =
     (case c of
        NaN \<Rightarrow> 0
      | NInf \<Rightarrow> 0
      | PInf \<Rightarrow> len
      | Fin x \<Rightarrow>
          (let t = (if 0 \<le> x then \<lfloor>x\<rfloor> else \<lceil>x\<rceil>)
           in if t < 0 then nat (max (int len + t) 0) else nat (min t (int len))))"

definition slice0 :: "jsnum \<Rightarrow> 'a list \<Rightarrow> 'a list" where
  "slice0 c xs = take (slice_end c (length xs)) xs"

section \<open>Profile mode: \<open>extractTwitterHandle\<close> (contactExtractor)\<close>

definition extractTwitterHandle :: "string \<Rightarrow> string" where
  "extractTwitterHandle url0 =
     (if url0 = [] then []
      else
        let url1 = hd (split_chr CHR ''#'' (hd (split_chr CHR ''?'' url0)));
            url2 = (if endsWith url1 ''/'' then slice_0_m1 url1 else url1);
            parts = split_chr CHR ''/'' url2;
            handle = parts ! (length parts - 1)
        in if handle \<noteq> [] \<and> handle \<noteq> ''twitter.com'' \<and> handle \<noteq> ''x.com''
              \<and> \<not> str_includes handle ''.''
           then handle else [])"

section \<open>Website mode: \<open>extractSocialHandle\<close> (websiteContactExtractor)\<close>


section \<open>The wording of the specification for handle extraction\<close>

text \<open>
  The specification speaks of the URL with its query parameters and fragment stripped,
  of the removal of one trailing slash, and of the trailing path segment. These are
  written down independently of \<open>split\<close>, to be compared with the code.
\<close>

definition strip_query_fragment :: "string \<Rightarrow> string" where
  "strip_query_fragment url = takeWhile (\<lambda>c. c \<noteq> CHR ''?'' \<and> c \<noteq> CHR ''#'') url"

definition strip_trailing_slash :: "string \<Rightarrow> string" where
  "strip_trailing_slash url = (if url \<noteq> [] \<and> last url = CHR ''/'' then butlast url else url)"

definition trailing_segment :: "string \<Rightarrow> string" where
  "trailing_segment url = rev (takeWhile (\<lambda>c. c \<noteq> CHR ''/'') (rev url))"

section \<open>The adaptive rate limiter: \<open>adaptiveDelay\<close> (scraper)\<close>

text \<open>
  The base delay \<open>config.delayBetweenRequests\<close> is a JavaScript number. The two calls of
  \<open>Math.random()\<close> are the arguments \<open>rnd1\<close> and \<open>rnd2\<close>, the two readings of
  \<open>Date.now()\<close> are \<open>now\<close> and \<open>now_after\<close>; the counters are integers. The
  literal \<open>0.2\<close> is the binary64 value nearest to it. The function returns the delay it
  waits for and the updated counters.
\<close>

record requestStats =
  lastRequestTime :: int
  consecutiveRequests :: int
  totalRequests :: int
  failedRequests :: int

definition adaptiveDelay ::
  "jsnum \<Rightarrow> int \<Rightarrow> real \<Rightarrow> real \<Rightarrow> int \<Rightarrow> requestStats \<Rightarrow> jsnum \<times> requestStats" where
  "adaptiveDelay delayBetweenRequests now rnd1 rnd2 now_after stats =
     (let timeSinceLastRequest = now - lastRequestTime stats;
          delayTime0 =
            (if consecutiveRequests stats > 5
             then fmul delayBetweenRequests
                    (fadd (Fin 1)
                       (fmul (fadd (num (consecutiveRequests stats)) (Fin (- 5)))
                          (round64 (2 / 10))))
             else delayBetweenRequests);
          delayTime1 = fadd delayTime0 (fmul (Fin rnd1) (Fin 1000));
          delayTime2 =
            (if timeSinceLastRequest < 1000
             then fadd delayTime1 (fadd (Fin 1000) (fmul (Fin rnd2) (Fin 2000)))
             else delayTime1);
          consecutive =
            (if timeSinceLastRequest < 1000 then consecutiveRequests stats + 1
             else max 0 (consecutiveRequests stats - 1));
          delayTime3 =
            (if failedRequests stats > 0
             then fadd delayTime2 (fmul (num (failedRequests stats)) (Fin 1000))
             else delayTime2)
      in (delayTime3,
          stats\<lparr>consecutiveRequests := consecutive, lastRequestTime := now_after,
                totalRequests := totalRequests stats + 1\<rparr>))"

section \<open>The scroll loop of \<open>getProductsFromLeaderboard\<close> (scraper)\<close>

text \<open>
  \<open>heights i\<close> is the scroll height read in iteration \<open>i\<close> (counted from 0), or
  \<open>None\<close> when an evaluation in that iteration throws. The result is the number of
  iterations begun and whether the loop was left by an exception.
\<close>

definition maxScrolls :: nat where
  "maxScrolls = 50"

function scroll_loop :: "(nat \<Rightarrow> int option) \<Rightarrow> int \<Rightarrow> nat \<Rightarrow> nat \<times> bool" where
  "scroll_loop heights lastHeight scrollCount =
     (if scrollCount < maxScrolls then
        (case heights scrollCount of
           None \<Rightarrow> (Suc scrollCount, True)
         | Some newHeight \<Rightarrow>
             if newHeight = lastHeight \<and> 3 \<le> Suc scrollCount then (Suc scrollCount, False)
             else scroll_loop heights newHeight (Suc scrollCount))
      else (scrollCount, False))"
  by pat_completeness auto
termination
  by (relation "measure (\<lambda>(heights, lastHeight, scrollCount). maxScrolls - scrollCount)") auto

declare scroll_loop.simps [simp del]

section \<open>Website mode: merging the three passes (websiteContactExtractor)\<close>

record contact_bundle =
  email :: string
  twitter :: string
  linkedin :: string
  website :: string

definition empty_bundle :: contact_bundle where
  "empty_bundle = \<lparr>email = [], twitter = [], linkedin = [], website = []\<rparr>"

definition mergeContactInfo ::
  "contact_bundle \<Rightarrow> contact_bundle \<Rightarrow> contact_bundle \<Rightarrow> contact_bundle" where
  "mergeContactInfo contactPageInfo footerContactInfo initialContactInfo =
     \<lparr>email = js_or (js_or (js_or (email contactPageInfo) (email footerContactInfo))
                 (email initialContactInfo)) [],
      twitter = js_or (js_or (js_or (twitter contactPageInfo) (twitter footerContactInfo))
                 (twitter initialContactInfo)) [],
      linkedin = js_or (js_or (js_or (linkedin contactPageInfo) (linkedin footerContactInfo))
                 (linkedin initialContactInfo)) [],
      website = js_or (js_or (js_or (website contactPageInfo) (website footerContactInfo))
                 (website initialContactInfo)) []\<rparr>"

text \<open>
  The page-source fallback after the merge. \<open>emailMatches\<close> is the result of the regular
  expression match on the page source (\<open>None\<close> for \<open>null\<close>).
\<close>

definition sourceEmailFallback :: "string list option \<Rightarrow> contact_bundle \<Rightarrow> contact_bundle" where
  "sourceEmailFallback emailMatches mergedContactInfo =
     (if email mergedContactInfo = [] then
        (case emailMatches of
           None \<Rightarrow> mergedContactInfo
         | Some matches \<Rightarrow>
             let validEmails =
                   map trim
                     (filter (\<lambda>e. \<not> str_includes e ''example.com''
                                  \<and> \<not> str_includes e ''yourdomain.com''
                                  \<and> \<not> str_includes e ''domain.com''
                                  \<and> length e < 100) matches)
             in if 0 < length validEmails
                then mergedContactInfo\<lparr>email := validEmails ! 0\<rparr>
                else mergedContactInfo)
      else mergedContactInfo)"

text \<open>
  The value \<open>extractWebsiteContactInfo\<close> returns once the three passes have run:
  the contact page pass, the pass on the initial load, the pass after scrolling.
\<close>

definition websiteContactResult ::
  "contact_bundle \<Rightarrow> contact_bundle \<Rightarrow> contact_bundle \<Rightarrow> string list option \<Rightarrow> contact_bundle" where
  "websiteContactResult contactPageInfo initialContactInfo footerContactInfo emailMatches =
     sourceEmailFallback emailMatches
       (mergeContactInfo contactPageInfo footerContactInfo initialContactInfo)"

text \<open>The wording of the specification: the first non-empty value wins.\<close>

definition first_non_empty :: "string list \<Rightarrow> string" where
  "first_non_empty xs = (case find (\<lambda>s. s \<noteq> []) xs of Some s \<Rightarrow> s | None \<Rightarrow> [])"

section \<open>The browser and the product page\<close>

text \<open>
  The browser is the number of pages that are open. \<open>browser.newPage()\<close> opens one,
  \<open>page.close()\<close> closes one.
\<close>

record browser_state =
  open_pages :: nat

definition newPage :: "browser_state \<Rightarrow> browser_state" where
  "newPage b = b\<lparr>open_pages := open_pages b + 1\<rparr>"

definition closePage :: "browser_state \<Rightarrow> browser_state" where
  "closePage b = b\<lparr>open_pages := open_pages b - 1\<rparr>"

text \<open>The outcome of \<open>redirectPage.goto\<close>: it throws, or the response has a final URL.\<close>

datatype nav_result = NavThrows | NavResponse string

text \<open>
  An \<open>a\<close> or \<open>button\<close> element of the live document: its \<open>textContent\<close> and its
  \<open>href\<close> property (empty when there is none).
\<close>

record element =
  textContent :: string
  href :: string

text \<open>An anchor of the live document: its \<open>href\<close> attribute and the top of its rectangle.\<close>

record rect_link =
  link_href :: string
  rect_top :: real

text \<open>
  A profile link of the static snapshot: its \<open>href\<close> attribute, its text, and whether
  its parent holds a \<open>span\<close> or \<open>div\<close> containing the word Maker.
\<close>

record maker_link =
  ml_href :: string
  ml_text :: string
  ml_badge :: bool

text \<open>The value \<open>extractContactInfo\<close> returns for a maker profile.\<close>

record profile_contact =
  pc_email :: string
  pc_xId :: string
  pc_linkedinUrl :: string

text \<open>
  What \<open>getProductDetails\<close> observes for one product:
  \<^item> \<open>page_opens\<close>: \<open>browser.newPage()\<close> resolves (otherwise the function throws);
  \<^item> \<open>page_loads\<close>: \<open>page.goto(productUrl)\<close> resolves (otherwise the \<open>catch\<close> block runs);
  \<^item> \<open>elements\<close>: the \<open>a\<close> and \<open>button\<close> elements of the live document, in order;
  \<^item> \<open>anchor_hrefs\<close>: the \<open>href\<close> attributes of the anchors of the static snapshot;
  \<^item> \<open>redirect_nav\<close>: what following the first redirect link does;
  \<^item> \<open>http_links\<close>: the \<open>href\<close> properties of the anchors selected by \<open>a[href^="http"]\<close>;
  \<^item> \<open>pattern_url\<close>: the value of the scan of the page text with the ten patterns
    (the first capture, with \<open>https://\<close> put in front when it does not start with
    \<open>http\<close>, or the empty string);
  \<^item> \<open>innerText\<close>: \<open>document.body.innerText\<close>;
  \<^item> \<open>rect_links\<close>: the anchors of the live document;
  \<^item> \<open>page_emails\<close>: the matches of the e-mail expression in the page text;
  \<^item> \<open>website_attempts\<close>: what the \<open>n\<close>-th call of \<open>extractWebsiteContactInfo\<close> returns
    (\<open>None\<close> when it throws);
  \<^item> \<open>team_section\<close>: the profile links inside the parent of the first
    "Meet the team" heading, when there is such a heading;
  \<^item> \<open>profile_links\<close>: the profile links of the whole page;
  \<^item> \<open>maker_contact\<close>: what \<open>extractContactInfo\<close> returns for a profile URL
    (\<open>None\<close> when it throws).
\<close>

record product_page =
  page_opens :: bool
  page_loads :: bool
  elements :: "element list"
  anchor_hrefs :: "string list"
  redirect_nav :: nav_result
  http_links :: "string list"
  pattern_url :: string
  innerText :: string
  rect_links :: "rect_link list"
  page_emails :: "string list"
  website_attempts :: "nat \<Rightarrow> contact_bundle option"
  team_section :: "maker_link list option"
  profile_links :: "maker_link list"
  maker_contact :: "string \<Rightarrow> profile_contact option"

section \<open>The six approaches of \<open>getProductDetails\<close> to the product website\<close>

definition visitButtons :: "element list \<Rightarrow> element list" where
  "visitButtons els =
     filter (\<lambda>el.
        let text = trim (toLowerCase (textContent el))
        in (text = ''visit'' \<or> text = ''visit website'' \<or> text = ''website''
            \<or> str_includes text ''visit site'' \<or> str_includes text ''view site''
            \<or> str_includes text ''open site'' \<or> str_includes text ''go to site'')
           \<and> href el \<noteq> [] \<and> startsWith (href el) ''http''
           \<and> \<not> str_includes (href el) ''producthunt.com/r/''
           \<and> \<not> str_includes (href el) ''lu.ma/producthunt'') els"

definition getItButtons :: "element list \<Rightarrow> element list" where
  "getItButtons els =
     filter (\<lambda>el.
        let text = trim (toLowerCase (textContent el))
        in (text = ''get it'' \<or> text = ''get'' \<or> text = ''try'' \<or> text = ''try it''
            \<or> text = ''try it free'' \<or> text = ''try for free'' \<or> text = ''download''
            \<or> text = ''download now'' \<or> text = ''install'' \<or> text = ''install now''
            \<or> text = ''sign up'' \<or> text = ''signup'' \<or> text = ''join''
            \<or> text = ''join now'' \<or> text = ''launch'' \<or> text = ''launch app''
            \<or> str_includes text ''download'' \<or> str_includes text ''try it''
            \<or> str_includes text ''get it'' \<or> str_includes text ''sign up''
            \<or> str_includes text ''install'')
           \<and> href el \<noteq> [] \<and> startsWith (href el) ''http''
           \<and> \<not> str_includes (href el) ''producthunt.com''
           \<and> \<not> str_includes (href el) ''lu.ma/producthunt'') els"

text \<open>\<open>buttons.length > 0 ? buttons[0].href : ''\<close>\<close>

definition firstHref :: "element list \<Rightarrow> string" where
  "firstHref buttons = (if 0 < length buttons then href (buttons ! 0) else [])"

definition approach1 :: "product_page \<Rightarrow> string" where
  "approach1 page = firstHref (visitButtons (elements page))"

text \<open>
  Following the redirect link: a page is opened, and it is closed after the navigation
  when the navigation did not throw.
\<close>

definition followRedirect :: "nav_result \<Rightarrow> browser_state \<Rightarrow> string \<times> browser_state" where
  "followRedirect nav b =
     (let redirectPage = newPage b
      in case nav of
           NavThrows \<Rightarrow> ([], redirectPage)
         | NavResponse finalUrl \<Rightarrow>
             (if \<not> str_includes finalUrl ''producthunt.com''
                 \<and> \<not> str_includes finalUrl ''lu.ma/producthunt''
              then finalUrl else [],
              closePage redirectPage))"

definition approach2 :: "product_page \<Rightarrow> browser_state \<Rightarrow> string \<times> browser_state" where
  "approach2 page b =
     (let redirectLinks =
            filter (\<lambda>h. startsWith h ''https://www.producthunt.com/r/'') (anchor_hrefs page)
      in if 0 < length redirectLinks then followRedirect (redirect_nav page) b else ([], b))"

definition approach3 :: "product_page \<Rightarrow> string" where
  "approach3 page = firstHref (getItButtons (elements page))"

definition externalLinks :: "string list \<Rightarrow> string list" where
  "externalLinks links =
     js_sort (\<lambda>a b. int (length a) - int (length b))
       (filter (\<lambda>a.
          let h = toLowerCase a
          in \<not> str_includes h ''producthunt.com'' \<and> \<not> str_includes h ''lu.ma/producthunt''
             \<and> \<not> str_includes h ''twitter.com'' \<and> \<not> str_includes h ''x.com''
             \<and> \<not> str_includes h ''linkedin.com'' \<and> \<not> str_includes h ''facebook.com''
             \<and> \<not> str_includes h ''instagram.com'' \<and> \<not> str_includes h ''youtube.com/channel/''
             \<and> \<not> str_includes h ''youtube.com/user/'' \<and> \<not> str_includes h ''github.com/''
             \<and> \<not> str_includes h ''medium.com/'' \<and> \<not> str_includes h ''discord.gg/''
             \<and> \<not> str_includes h ''t.me/'') links)"

definition approach4 :: "product_page \<Rightarrow> string" where
  "approach4 page =
     (let links = externalLinks (http_links page)
      in if 0 < length links then links ! 0 else [])"

text \<open>The guard on the domain bebop.ai.\<close>

definition bebopCount :: "product_page \<Rightarrow> nat" where
  "bebopCount page = count_matches ''bebop.ai'' 0 (toLowerCase (innerText page))"

definition bebopLinks :: "product_page \<Rightarrow> rect_link list" where
  "bebopLinks page = filter (\<lambda>l. str_includes (link_href l) ''bebop.ai'') (rect_links page)"

definition isBebopRealWebsite :: "product_page \<Rightarrow> bool" where
  "isBebopRealWebsite page =
     (if bebopCount page < 3 then False
      else
        let headerBebopLink = list_ex (\<lambda>l. rect_top l < 300) (bebopLinks page)
        in headerBebopLink \<or> 5 < bebopCount page)"

definition approach5 :: "product_page \<Rightarrow> string" where
  "approach5 page =
     (let websiteUrl = pattern_url page
      in if websiteUrl \<noteq> [] \<and> str_includes (toLowerCase websiteUrl) ''bebop.ai''
            \<and> \<not> isBebopRealWebsite page
         then [] else websiteUrl)"

text \<open>
  The domain of an e-mail address, \<open>email.match(/@([a-zA-Z0-9._-]+\.[a-zA-Z0-9._-]+)/i)\<close>:
  at the first \<open>@\<close> whose run of domain characters has a dot that is neither its first
  nor its last character, the whole run.
\<close>

definition is_domain_chr :: "char \<Rightarrow> bool" where
  "is_domain_chr c =
     (c \<in> set ''abcdefghijklmnopqrstuvwxyzABCDEFGHIJKLMNOPQRSTUVWXYZ0123456789._-'')"

fun email_domain :: "string \<Rightarrow> string option" where
  "email_domain [] = None"
| "email_domain (c # cs) =
     (if c = CHR ''@'' \<and> CHR ''.'' \<in> set (butlast (tl (takeWhile is_domain_chr cs)))
      then Some (takeWhile is_domain_chr cs)
      else email_domain cs)"

definition emailDomains :: "string list \<Rightarrow> string list" where
  "emailDomains makerEmails =
     map the
       (filter (\<lambda>d. case d of
            None \<Rightarrow> False
          | Some domain \<Rightarrow>
              domain \<noteq> [] \<and> \<not> str_includes domain ''gmail.com''
              \<and> \<not> str_includes domain ''yahoo.com'' \<and> \<not> str_includes domain ''hotmail.com''
              \<and> \<not> str_includes domain ''outlook.com'' \<and> \<not> str_includes domain ''icloud.com''
              \<and> \<not> str_includes domain ''aol.com'' \<and> \<not> str_includes domain ''protonmail.com''
              \<and> \<not> str_includes domain ''mail.com'')
          (map email_domain makerEmails))"

definition approach6 :: "product_page \<Rightarrow> string" where
  "approach6 page =
     (let domains = emailDomains (page_emails page)
      in if 0 < length domains then ''https://'' @ domains ! 0 else [])"

text \<open>
  The cascade. The state is the variable \<open>websiteUrl\<close>, the browser, and the list of the
  approaches whose block has been entered. The first approach always runs; each later
  block is guarded by \<open>if (!websiteUrl)\<close>.
\<close>

record cascade_state =
  websiteUrl :: string
  entered :: "nat list"
  browser :: browser_state

definition step2 :: "product_page \<Rightarrow> cascade_state \<Rightarrow> cascade_state" where
  "step2 page st =
     (if websiteUrl st = [] then
        (let (u, b) = approach2 page (browser st)
         in \<lparr>websiteUrl = u, entered = entered st @ [2], browser = b\<rparr>)
      else st)"

definition step_pure :: "nat \<Rightarrow> (product_page \<Rightarrow> string) \<Rightarrow> product_page \<Rightarrow> cascade_state \<Rightarrow> cascade_state" where
  "step_pure k approach page st =
     (if websiteUrl st = [] then
        st\<lparr>websiteUrl := approach page, entered := entered st @ [k]\<rparr>
      else st)"

definition website_cascade :: "product_page \<Rightarrow> browser_state \<Rightarrow> cascade_state" where
  "website_cascade page b =
     (let st1 = \<lparr>websiteUrl = approach1 page, entered = [1], browser = b\<rparr>;
          st2 = step2 page st1;
          st3 = step_pure 3 approach3 page st2;
          st4 = step_pure 4 approach4 page st3;
          st5 = step_pure 5 approach5 page st4;
          st6 = step_pure 6 approach6 page st5
      in st6)"

text \<open>The value approach \<open>k\<close> yields on a page, read off without running the cascade.\<close>

definition approach_result :: "nat \<Rightarrow> product_page \<Rightarrow> string" where
  "approach_result k page =
     (if k = 1 then approach1 page
      else if k = 2 then fst (approach2 page \<lparr>open_pages = 0\<rparr>)
      else if k = 3 then approach3 page
      else if k = 4 then approach4 page
      else if k = 5 then approach5 page
      else if k = 6 then approach6 page
      else [])"

section \<open>Website contact retries and maker discovery in \<open>getProductDetails\<close>\<close>

definition maxRetries :: nat where
  "maxRetries = 2"

text \<open>
  The retry loop around \<open>extractWebsiteContactInfo\<close>. A call that returns has opened a
  page and closed it in its \<open>finally\<close> block; a call that throws has not opened one.
  The loop variable \<open>retryCount\<close> is also the number of calls made so far.
\<close>

function websiteContactLoop ::
  "(nat \<Rightarrow> contact_bundle option) \<Rightarrow> nat \<Rightarrow> browser_state \<Rightarrow> contact_bundle \<times> browser_state" where
  "websiteContactLoop attempts retryCount b =
     (if retryCount \<le> maxRetries then
        (case attempts retryCount of
           Some info \<Rightarrow>
             if email info = [] \<and> twitter info = [] \<and> linkedin info = []
                \<and> website info = [] \<and> retryCount < maxRetries
             then websiteContactLoop attempts (retryCount + 1) (closePage (newPage b))
             else (info, closePage (newPage b))
         | None \<Rightarrow>
             if maxRetries < retryCount + 1 then (empty_bundle, b)
             else websiteContactLoop attempts (retryCount + 1) b)
      else (empty_bundle, b))"
  by pat_completeness auto
termination
  by (relation "measure (\<lambda>(attempts, retryCount, b). Suc maxRetries - retryCount)") auto

declare websiteContactLoop.simps [simp del]

text \<open>
  A maker: the object pushed onto \<open>makers\<close>, with the contact fields that
  \<open>extractContactInfo\<close> fills in later (empty until then).
\<close>

record maker =
  maker_url :: string
  maker_name :: string
  isMaker :: bool
  maker_email :: string
  maker_xId :: string
  maker_linkedinUrl :: string

text \<open>The \<open>each\<close> loop over the profile links, with the set of the URLs seen so far.\<close>

fun collectMakers :: "jsnum \<Rightarrow> maker_link list \<Rightarrow> maker list \<Rightarrow> string set \<Rightarrow> maker list" where
  "collectMakers maxMakersPerProduct [] makers processedMakerUrls = makers"
| "collectMakers maxMakersPerProduct (l # ls) makers processedMakerUrls =
     (if ml_href l \<noteq> [] \<and> startsWith (ml_href l) ''/@'' then
        (let fullMakerUrl = ''https://www.producthunt.com'' @ ml_href l
         in if fullMakerUrl \<notin> processedMakerUrls then
              (if ml_badge l \<or> jslt (Fin (real (length makers))) maxMakersPerProduct
               then collectMakers maxMakersPerProduct ls
                      (makers @ [\<lparr>maker_url = fullMakerUrl, maker_name = trim (ml_text l),
                                  isMaker = ml_badge l, maker_email = [], maker_xId = [],
                                  maker_linkedinUrl = []\<rparr>])
                      (insert fullMakerUrl processedMakerUrls)
               else collectMakers maxMakersPerProduct ls makers
                      (insert fullMakerUrl processedMakerUrls))
            else collectMakers maxMakersPerProduct ls makers processedMakerUrls)
      else collectMakers maxMakersPerProduct ls makers processedMakerUrls)"

text \<open>The comparison function handed to \<open>makers.sort\<close>.\<close>

definition makerCompare :: "maker \<Rightarrow> maker \<Rightarrow> int" where
  "makerCompare a b =
     (if isMaker a \<and> \<not> isMaker b then - 1
      else if \<not> isMaker a \<and> isMaker b then 1
      else 0)"

text \<open>
  \<open>makers.sort(...)\<close> followed by \<open>makers.slice(0, config.maxMakersPerProduct)\<close>.
  The cap is whatever number the configuration holds (3 by default, or the result of
  \<open>parseInt\<close> on an environment variable, which is not checked).
\<close>

definition makersToProcess :: "jsnum \<Rightarrow> maker_link list \<Rightarrow> maker list" where
  "makersToProcess maxMakersPerProduct makerLinks =
     slice0 maxMakersPerProduct
       (js_sort makerCompare (collectMakers maxMakersPerProduct makerLinks [] {}))"

text \<open>The profile URL that the loop builds from a link.\<close>

definition fullMakerUrl :: "maker_link \<Rightarrow> string" where
  "fullMakerUrl l = ''https://www.producthunt.com'' @ ml_href l"

text \<open>
  The loop over the retained makers. A maker whose contact extraction throws is skipped.
\<close>

fun processMakers ::
  "(string \<Rightarrow> profile_contact option) \<Rightarrow> maker list \<Rightarrow> browser_state \<Rightarrow> maker list \<times> browser_state" where
  "processMakers contact [] b = ([], b)"
| "processMakers contact (m # ms) b =
     (case contact (maker_url m) of
        Some contactInfo \<Rightarrow>
          (let (rest, b') = processMakers contact ms (closePage (newPage b))
           in (m\<lparr>maker_email := js_or (pc_email contactInfo) [],
                 maker_xId := js_or (pc_xId contactInfo) [],
                 maker_linkedinUrl := js_or (pc_linkedinUrl contactInfo) []\<rparr> # rest, b'))
      | None \<Rightarrow> processMakers contact ms b)"

section \<open>\<open>getProductDetails\<close> (scraper)\<close>

record product_details =
  productWebsite :: string
  makers :: "maker list"
  websiteContactInfo :: contact_bundle

definition empty_details :: product_details where
  "empty_details = \<lparr>productWebsite = [], makers = [], websiteContactInfo = empty_bundle\<rparr>"

text \<open>
  The result is \<open>None\<close> when the function throws, which it does only before its
  \<open>try\<close> block. Inside the \<open>try\<close> block a failed navigation is caught and the empty
  details are returned; the \<open>finally\<close> block closes the product page.
\<close>

definition getProductDetails ::
  "jsnum \<Rightarrow> product_page \<Rightarrow> browser_state \<Rightarrow> product_details option \<times> browser_state" where
  "getProductDetails maxMakersPerProduct page b =
     (if \<not> page_opens page then (None, b)
      else
        let b1 = newPage b
        in if \<not> page_loads page then (Some empty_details, closePage b1)
           else
             let st = website_cascade page b1;
                 (info, b2) =
                   (if websiteUrl st \<noteq> []
                    then websiteContactLoop (website_attempts page) 0 (browser st)
                    else (empty_bundle, browser st));
                 makerLinks =
                   (case team_section page of Some links \<Rightarrow> links | None \<Rightarrow> profile_links page);
                 (ms, b3) =
                   (if 0 < length makerLinks
                    then processMakers (maker_contact page)
                           (makersToProcess maxMakersPerProduct makerLinks) b2
                    else ([], b2))
             in (Some \<lparr>productWebsite = websiteUrl st, makers = ms, websiteContactInfo = info\<rparr>,
                 closePage b3))"

section \<open>\<open>getProductsFromLeaderboard\<close> (scraper)\<close>

record product =
  p_name :: string
  p_url :: string

text \<open>
  An anchor selected by \<open>a[href^="/products/"]\<close> in the static snapshot: its \<open>href\<close>
  attribute, its text, and the text of the first heading or name element inside it.
\<close>

record product_element =
  pe_href :: string
  pe_text :: string
  pe_nameElement :: "string option"

text \<open>
  An anchor selected by \<open>a[href*="/posts/"]\<close> in the live document: the text of the
  heading found in or next to it, its own text, and its \<open>href\<close> property.
\<close>

record post_link =
  pl_heading :: "string option"
  pl_text :: string
  pl_href :: string

fun collectProducts :: "product_element list \<Rightarrow> product list \<Rightarrow> product list" where
  "collectProducts [] products = products"
| "collectProducts (e # es) products =
     (let productUrl = pe_href e;
          productName0 = trim (pe_text e);
          productName =
            (if productName0 = [] then
               (case pe_nameElement e of Some t \<Rightarrow> trim t | None \<Rightarrow> productName0)
             else productName0)
      in if productUrl \<noteq> [] \<and> productName \<noteq> []
            \<and> \<not> list_ex (\<lambda>p. p_url p = ''https://www.producthunt.com'' @ productUrl) products
         then collectProducts es
                (products @ [\<lparr>p_name = productName, p_url = ''https://www.producthunt.com'' @ productUrl\<rparr>])
         else collectProducts es products)"

text \<open>The two passes that fill \<open>uniqueProducts\<close> and \<open>seenUrls\<close>.\<close>

fun addUnique ::
  "string \<Rightarrow> product list \<Rightarrow> product list \<times> string set \<Rightarrow> product list \<times> string set" where
  "addUnique path [] acc = acc"
| "addUnique path (p # ps) (uniqueProducts, seenUrls) =
     (if str_includes (p_url p) path \<and> p_url p \<notin> seenUrls
      then addUnique path ps (uniqueProducts @ [p], insert (p_url p) seenUrls)
      else addUnique path ps (uniqueProducts, seenUrls))"

definition productLinks :: "post_link list \<Rightarrow> product list" where
  "productLinks links =
     filter (\<lambda>p. p_name p \<noteq> [] \<and> p_url p \<noteq> [])
       (map (\<lambda>l. \<lparr>p_name = (case pl_heading l of Some h \<Rightarrow> trim h | None \<Rightarrow> trim (pl_text l)),
                  p_url = pl_href l\<rparr>) links)"

definition extractProducts :: "product_element list \<Rightarrow> post_link list \<Rightarrow> product list" where
  "extractProducts productElements links =
     (let products = collectProducts productElements [];
          first = addUnique ''/products/'' products ([], {})
      in if length (fst first) < 20
         then fst (addUnique ''/posts/'' (productLinks links) first)
         else fst first)"

text \<open>
  What \<open>getProductsFromLeaderboard\<close> observes: whether the navigation succeeds, the
  height read before the loop, the heights read in the loop, and the anchors.
\<close>

record leaderboard_page =
  lb_loads :: bool
  lb_height :: int
  lb_heights :: "nat \<Rightarrow> int option"
  lb_productElements :: "product_element list"
  lb_postLinks :: "post_link list"

text \<open>
  The result is \<open>None\<close> when the function rethrows from its \<open>catch\<close> block; the
  \<open>finally\<close> block closes the page in either case.
\<close>

definition getProductsFromLeaderboard ::
  "leaderboard_page \<Rightarrow> browser_state \<Rightarrow> product list option \<times> browser_state" where
  "getProductsFromLeaderboard lb b =
     (let page = newPage b
      in if \<not> lb_loads lb then (None, closePage page)
         else if snd (scroll_loop (lb_heights lb) (lb_height lb) 0) then (None, closePage page)
         else (Some (extractProducts (lb_productElements lb) (lb_postLinks lb)), closePage page))"

section \<open>\<open>scrapeProductHunt\<close>: the records of a run (scraper)\<close>

record output_record =
  productName :: string
  productUrl :: string
  productWebsite_out :: string
  makerName :: string
  makerUrl :: string
  email_out :: string
  xId :: string
  linkedinUrl :: string
  websiteEmail :: string
  websiteTwitter :: string
  websiteLinkedin :: string
  websiteContactPage :: string
  extractedDate :: string

definition makerRecord :: "string \<Rightarrow> product \<Rightarrow> product_details \<Rightarrow> maker \<Rightarrow> output_record" where
  "makerRecord date p details m =
     \<lparr>productName = p_name p, productUrl = p_url p,
      productWebsite_out = js_or (productWebsite details) [],
      makerName = js_or (maker_name m) [], makerUrl = js_or (maker_url m) [],
      email_out = js_or (maker_email m) [], xId = js_or (maker_xId m) [],
      linkedinUrl = js_or (maker_linkedinUrl m) [],
      websiteEmail = js_or (email (websiteContactInfo details)) [],
      websiteTwitter = js_or (twitter (websiteContactInfo details)) [],
      websiteLinkedin = js_or (linkedin (websiteContactInfo details)) [],
      websiteContactPage = js_or (website (websiteContactInfo details)) [],
      extractedDate = date\<rparr>"

definition noMakerRecord :: "string \<Rightarrow> product \<Rightarrow> product_details \<Rightarrow> output_record" where
  "noMakerRecord date p details =
     \<lparr>productName = p_name p, productUrl = p_url p,
      productWebsite_out = js_or (productWebsite details) [],
      makerName = [], makerUrl = [], email_out = [], xId = [], linkedinUrl = [],
      websiteEmail = js_or (email (websiteContactInfo details)) [],
      websiteTwitter = js_or (twitter (websiteContactInfo details)) [],
      websiteLinkedin = js_or (linkedin (websiteContactInfo details)) [],
      websiteContactPage = js_or (website (websiteContactInfo details)) [],
      extractedDate = date\<rparr>"

definition errorRecord :: "string \<Rightarrow> product \<Rightarrow> output_record" where
  "errorRecord date p =
     \<lparr>productName = p_name p, productUrl = p_url p, productWebsite_out = [],
      makerName = [], makerUrl = [], email_out = [], xId = [], linkedinUrl = [],
      websiteEmail = [], websiteTwitter = [], websiteLinkedin = [],
      websiteContactPage = [], extractedDate = date\<rparr>"

text \<open>The records one product contributes: the body of the \<open>for\<close> loop.\<close>

definition productRecords ::
  "jsnum \<Rightarrow> string \<Rightarrow> product \<Rightarrow> product_details option \<Rightarrow> output_record list" where
  "productRecords maxMakersPerProduct date p outcome =
     (case outcome of
        Some details \<Rightarrow>
          (let limitedMakers = slice0 maxMakersPerProduct (makers details)
           in if 0 < length limitedMakers then map (makerRecord date p details) limitedMakers
              else [noMakerRecord date p details])
      | None \<Rightarrow> [errorRecord date p])"

text \<open>
  The loop over the products. \<open>pages\<close> gives, for a product URL, what
  \<open>getProductDetails\<close> observes there. The delays between the products do not touch the
  records and are left out.
\<close>

fun processProducts ::
  "jsnum \<Rightarrow> string \<Rightarrow> (string \<Rightarrow> product_page) \<Rightarrow> product list \<Rightarrow> browser_state
     \<Rightarrow> output_record list \<times> browser_state" where
  "processProducts maxMakersPerProduct date pages [] b = ([], b)"
| "processProducts maxMakersPerProduct date pages (p # ps) b =
     (let (outcome, b1) = getProductDetails maxMakersPerProduct (pages (p_url p)) b;
          (rest, b2) = processProducts maxMakersPerProduct date pages ps b1
      in (productRecords maxMakersPerProduct date p outcome @ rest, b2))"

text \<open>
  The run: \<open>None\<close> when the listing throws (the error is rethrown), otherwise the records
  handed to the CSV writer (none when the listing is empty).
\<close>

definition scrapeProductHunt ::
  "jsnum \<Rightarrow> jsnum \<Rightarrow> string \<Rightarrow> leaderboard_page \<Rightarrow> (string \<Rightarrow> product_page) \<Rightarrow> browser_state
     \<Rightarrow> output_record list option \<times> browser_state" where
  "scrapeProductHunt maxProducts maxMakersPerProduct date lb pages b =
     (case getProductsFromLeaderboard lb b of
        (None, b1) \<Rightarrow> (None, b1)
      | (Some products, b1) \<Rightarrow>
          if length products = 0 then (Some [], b1)
          else
            (let productsToProcess = slice0 maxProducts products;
                 (allProductData, b2) =
                   processProducts maxMakersPerProduct date pages productsToProcess b1
             in (Some allProductData, b2)))"

section \<open>Example inputs\<close>

text \<open>A product page that opens and loads and has nothing on it.\<close>

definition blank_page :: product_page where
  "blank_page =
     \<lparr>page_opens = True, page_loads = True, elements = [], anchor_hrefs = [],
      redirect_nav = NavThrows, http_links = [], pattern_url = [], innerText = [],
      rect_links = [], page_emails = [], website_attempts = (\<lambda>n. None),
      team_section = None, profile_links = [], maker_contact = (\<lambda>u. None)\<rparr>"


text \<open>A page whose only hint is a redirect link, and the navigation to it times out.\<close>

definition redirect_timeout_page :: product_page where
  "redirect_timeout_page =
     blank_page
       \<lparr>anchor_hrefs := [''https://www.producthunt.com/r/ABC123''],
        redirect_nav := NavThrows\<rparr>"

text \<open>
  A page whose text mentions bebop.ai twice, with no link to it, and on which the
  pattern scan has found that domain.
\<close>

definition bebop_twice_page :: product_page where
  "bebop_twice_page =
     blank_page
       \<lparr>pattern_url := ''https://bebop.ai'',
        innerText := ''Made with Bebop.ai - try bebop.ai''\<rparr>"

text \<open>The same with three mentions, still without any link to the domain.\<close>

definition bebop_thrice_page :: product_page where
  "bebop_thrice_page =
     blank_page
       \<lparr>pattern_url := ''https://bebop.ai'',
        innerText := ''Made with Bebop.ai - try bebop.ai or read about bebop.ai''\<rparr>"





text \<open>The counters of the rate limiter before the first request.\<close>

definition fresh_stats :: requestStats where
  "fresh_stats = \<lparr>lastRequestTime = 0, consecutiveRequests = 0, totalRequests = 0, failedRequests = 0\<rparr>"

text \<open>A listing with one product, whose height never changes.\<close>

definition one_product_listing :: leaderboard_page where
  "one_product_listing =
     \<lparr>lb_loads = True, lb_height = 900, lb_heights = (\<lambda>i. Some 900),
      lb_productElements =
        [\<lparr>pe_href = ''/products/acme'', pe_text = '' Acme '', pe_nameElement = None\<rparr>],
      lb_postLinks = []\<rparr>"

section \<open>Facts about the string primitives\<close>

lemma split_chr_nonempty: "split_chr c s \<noteq> []"
  by (induction s) auto

lemma hd_split_chr: "hd (split_chr c s) = takeWhile (\<lambda>x. x \<noteq> c) s"
  by (induction s) auto

lemma split_chr_notin: "c \<notin> set s \<Longrightarrow> split_chr c s = [s]"
  by (induction s) auto

lemma tl_split_chr_in: "tl (split_chr c (xs @ c # ys)) \<noteq> []"
  using split_chr_nonempty by (induction xs) auto

lemma last_split_chr_app: "last (split_chr c (xs @ c # ys)) = last (split_chr c ys)"
proof (induction xs)
  case Nil
  then show ?case by (simp add: split_chr_nonempty)
next
  case (Cons x xs)
  show ?case
  proof (cases "x = c")
    case True
    then show ?thesis using Cons by (simp add: split_chr_nonempty)
  next
    case False
    have "last ((x # hd (split_chr c (xs @ c # ys))) # tl (split_chr c (xs @ c # ys)))
          = last (tl (split_chr c (xs @ c # ys)))"
      using tl_split_chr_in [of c xs ys] by simp
    also have "\<dots> = last (split_chr c (xs @ c # ys))"
      using tl_split_chr_in [of c xs ys] by (simp add: last_tl)
    finally show ?thesis using False Cons by simp
  qed
qed

lemma last_split_chr: "last (split_chr c s) = rev (takeWhile (\<lambda>x. x \<noteq> c) (rev s))"
proof (cases "c \<in> set s")
  case False
  then have tw: "takeWhile (\<lambda>x. x \<noteq> c) (rev s) = rev s"
    by (intro takeWhile_eq_all_conv [THEN iffD2]) auto
  have "last (split_chr c s) = s"
    using False by (simp add: split_chr_notin)
  then show ?thesis by (simp only: tw rev_rev_ident)
next
  case True
  then obtain xs ys where s: "s = xs @ c # ys" and ys: "c \<notin> set ys"
    by (meson split_list_last)
  have "last (split_chr c s) = ys"
    using s ys by (simp add: last_split_chr_app split_chr_notin)
  moreover have "takeWhile (\<lambda>x. x \<noteq> c) (rev s) = rev ys"
    using s ys by (auto simp: takeWhile_tail)
  ultimately show ?thesis by simp
qed

lemma nth_last_split: "split_chr c s ! (length (split_chr c s) - 1) = last (split_chr c s)"
  by (simp add: last_conv_nth split_chr_nonempty)

lemma str_includes_single: "str_includes s [c] = (c \<in> set s)"
  by (induction s) (auto simp: startsWith_def)


lemma takeWhile_takeWhile: "takeWhile P (takeWhile Q xs) = takeWhile (\<lambda>x. Q x \<and> P x) xs"
  by (induction xs) auto

lemma strip_query_fragment_split:
  "hd (split_chr CHR ''#'' (hd (split_chr CHR ''?'' url))) = strip_query_fragment url"
  by (simp add: hd_split_chr takeWhile_takeWhile strip_query_fragment_def)

lemma endsWith_slash: "endsWith s ''/'' = (s \<noteq> [] \<and> last s = CHR ''/'')"
proof (cases s rule: rev_cases)
  case Nil
  then show ?thesis by (simp add: endsWith_def)
next
  case (snoc ys y)
  then show ?thesis by (auto simp: endsWith_def)
qed

lemma strip_trailing_slash_code:
  "(if endsWith s ''/'' then slice_0_m1 s else s) = strip_trailing_slash s"
  by (simp add: endsWith_slash strip_trailing_slash_def slice_0_m1_def butlast_conv_take)

lemma trailing_segment_split:
  "split_chr CHR ''/'' s ! (length (split_chr CHR ''/'' s) - 1) = trailing_segment s"
  unfolding nth_last_split last_split_chr trailing_segment_def ..


section \<open>Handle extraction: the code against the wording\<close>

lemma extractTwitterHandle_eq:
  "extractTwitterHandle url =
     (let seg = trailing_segment (strip_trailing_slash (strip_query_fragment url))
      in if CHR ''.'' \<in> set seg \<or> seg = ''twitter.com'' \<or> seg = ''x.com'' then [] else seg)"
proof (cases "url = []")
  case True
  then show ?thesis
    by (simp add: extractTwitterHandle_def strip_query_fragment_def
        strip_trailing_slash_def trailing_segment_def)
next
  case False
  then show ?thesis
    unfolding extractTwitterHandle_def Let_def strip_query_fragment_split
      strip_trailing_slash_code trailing_segment_split str_includes_single
    by auto
qed


text \<open>
  Claim C9. Profile-mode Twitter handle extraction returns the trailing path segment of
  the URL once the query string, the fragment and one trailing slash are removed, and the
  empty string when that segment contains a dot or is the bare domain. In particular
  \<open>https://x.com/acme_io?ref=ph\<close> gives \<open>acme_io\<close> and \<open>https://x.com/\<close> gives
  the empty string.
\<close>

theorem extractTwitterHandle_trailing_segment:
  "extractTwitterHandle url =
     (let seg = trailing_segment (strip_trailing_slash (strip_query_fragment url))
      in if CHR ''.'' \<in> set seg \<or> seg = ''twitter.com'' \<or> seg = ''x.com'' then [] else seg)
   \<and> extractTwitterHandle ''https://x.com/acme_io?ref=ph'' = ''acme_io''
   \<and> extractTwitterHandle ''https://x.com/'' = []"
proof (intro conjI)
  show "extractTwitterHandle url =
     (let seg = trailing_segment (strip_trailing_slash (strip_query_fragment url))
      in if CHR ''.'' \<in> set seg \<or> seg = ''twitter.com'' \<or> seg = ''x.com'' then [] else seg)"
    by (rule extractTwitterHandle_eq)
  show "extractTwitterHandle ''https://x.com/acme_io?ref=ph'' = ''acme_io''"
    unfolding extractTwitterHandle_eq
    by (simp add: strip_query_fragment_def strip_trailing_slash_def trailing_segment_def)
  show "extractTwitterHandle ''https://x.com/'' = []"
    unfolding extractTwitterHandle_eq
    by (simp add: strip_query_fragment_def strip_trailing_slash_def trailing_segment_def)
qed

theorem extractTwitterHandle_trailing_segment_witness:
  "extractTwitterHandle ''https://twitter.com/jack/#top'' = ''jack''"
  using extractTwitterHandle_trailing_segment [of "''https://twitter.com/jack/#top''"]
  by (simp add: strip_query_fragment_def strip_trailing_slash_def trailing_segment_def)




section \<open>The merge of the three passes\<close>

lemma js_or_chain: "js_or (js_or (js_or a b) c) [] = (if a \<noteq> [] then a else if b \<noteq> [] then b else c)"
  by (simp add: js_or_def)

lemma first_non_empty3:
  "first_non_empty [a, b, c] = (if a \<noteq> [] then a else if b \<noteq> [] then b else c)"
  by (simp add: first_non_empty_def)

text \<open>
  Claim C2. The three passes of website mode are merged field by field, and the first
  non-empty value wins in the order contact page, pass after scrolling (footer), pass on
  the initial load. When the contact page has no e-mail, the footer pass has
  \<open>a@b.com\<close> and the initial pass has \<open>c@d.com\<close>, the e-mail that
  \<open>extractWebsiteContactInfo\<close> returns is \<open>a@b.com\<close>.
\<close>

theorem mergeContactInfo_first_non_empty:
  "email (mergeContactInfo cp ft ini) = first_non_empty [email cp, email ft, email ini]
   \<and> twitter (mergeContactInfo cp ft ini) = first_non_empty [twitter cp, twitter ft, twitter ini]
   \<and> linkedin (mergeContactInfo cp ft ini) = first_non_empty [linkedin cp, linkedin ft, linkedin ini]
   \<and> website (mergeContactInfo cp ft ini) = first_non_empty [website cp, website ft, website ini]
   \<and> (\<forall>x \<in> {email, twitter, linkedin, website}.
        x (mergeContactInfo cp ft ini)
          = (if x cp \<noteq> [] then x cp else if x ft \<noteq> [] then x ft else x ini))
   \<and> (email cp = [] \<and> email ft = ''a@b.com'' \<and> email ini = ''c@d.com''
        \<longrightarrow> email (websiteContactResult cp ini ft matches) = ''a@b.com'')"
  by (simp add: mergeContactInfo_def js_or_chain first_non_empty3 websiteContactResult_def
      sourceEmailFallback_def)

theorem mergeContactInfo_first_non_empty_witness:
  "email (websiteContactResult
      \<lparr>email = [], twitter = [], linkedin = ''https://linkedin.com/company/acme'', website = []\<rparr>
      \<lparr>email = ''c@d.com'', twitter = ''acme'', linkedin = [], website = []\<rparr>
      \<lparr>email = ''a@b.com'', twitter = [], linkedin = [], website = []\<rparr>
      None) = ''a@b.com''"
  using mergeContactInfo_first_non_empty
    [of "\<lparr>email = [], twitter = [], linkedin = ''https://linkedin.com/company/acme'', website = []\<rparr>"
        "\<lparr>email = ''a@b.com'', twitter = [], linkedin = [], website = []\<rparr>"
        "\<lparr>email = ''c@d.com'', twitter = ''acme'', linkedin = [], website = []\<rparr>" None]
  by simp

section \<open>Rounding of JavaScript numbers\<close>

lemma p2_pos: "0 < (2::real) powi k"
  by simp

lemma p2_add: "(2::real) powi (a + b) = 2 powi a * 2 powi b"
  by (simp add: power_int_add)

lemma p2_less_iff: "(2::real) powi a < 2 powi b \<longleftrightarrow> a < b"
proof
  assume l: "(2::real) powi a < 2 powi b"
  show "a < b"
  proof (rule ccontr)
    assume "\<not> a < b"
    then have "b \<le> a" by simp
    then have "(2::real) powi b \<le> 2 powi a" by (intro power_int_increasing) simp_all
    with l show False by simp
  qed
next
  assume "a < b"
  then show "(2::real) powi a < 2 powi b" by (intro power_int_strict_increasing) simp_all
qed

lemma p2_le_iff: "(2::real) powi a \<le> 2 powi b \<longleftrightarrow> a \<le> b"
  using p2_less_iff [of b a] by (auto simp: not_less [symmetric])

lemma p2_Suc: "(2::real) powi (k + 1) = 2 * 2 powi k"
  by (simp add: power_int_add)

lemma p2_pred: "(2::real) powi (k - 1) = 2 powi k / 2"
  using p2_Suc [of "k - 1"] by simp

lemma ilog2_bounds: "0 < x \<Longrightarrow> 2 powi (ilog2 x) \<le> x \<and> x < 2 powi (ilog2 x + 1)"
proof (induction x rule: ilog2.induct)
  case (1 x)
  show ?case
  proof (cases "2 \<le> x")
    case True
    then have e: "ilog2 x = ilog2 (x / 2) + 1" by (subst ilog2.simps) simp
    from "1.IH"(1) [OF True] True
    have "2 powi (ilog2 (x / 2)) \<le> x / 2 \<and> x / 2 < 2 powi (ilog2 (x / 2) + 1)" by simp
    then show ?thesis unfolding e p2_Suc by simp
  next
    case False
    show ?thesis
    proof (cases "x < 1")
      case True
      with "1.prems" False have e: "ilog2 x = ilog2 (2 * x) - 1" by (subst ilog2.simps) simp
      from "1.IH"(2) [OF False] True "1.prems"
      have "2 powi (ilog2 (2 * x)) \<le> 2 * x \<and> 2 * x < 2 powi (ilog2 (2 * x) + 1)" by simp
      then show ?thesis unfolding e p2_pred p2_Suc by simp
    next
      case g: False
      with False have e: "ilog2 x = 0" by (subst ilog2.simps) simp
      with False g show ?thesis by simp
    qed
  qed
qed

lemma ilog2_unique:
  assumes "0 < x" "2 powi e \<le> x" "x < 2 powi (e + 1)"
  shows "ilog2 x = e"
proof -
  from ilog2_bounds [OF assms(1)] have b: "2 powi (ilog2 x) \<le> x" "x < 2 powi (ilog2 x + 1)" by auto
  from b(1) assms(3) have "(2::real) powi (ilog2 x) < 2 powi (e + 1)" by simp
  then have 1: "ilog2 x < e + 1" by (simp only: p2_less_iff)
  from assms(2) b(2) have "(2::real) powi e < 2 powi (ilog2 x + 1)" by simp
  then have 2: "e < ilog2 x + 1" by (simp only: p2_less_iff)
  from 1 2 show ?thesis by simp
qed

lemma ilog2_mono: "0 < x \<Longrightarrow> x \<le> y \<Longrightarrow> ilog2 x \<le> ilog2 y"
proof -
  assume x: "0 < x" and xy: "x \<le> y"
  then have y: "0 < y" by simp
  from ilog2_bounds [OF x] ilog2_bounds [OF y] xy
  have "(2::real) powi (ilog2 x) < 2 powi (ilog2 y + 1)" by simp
  then have "ilog2 x < ilog2 y + 1" by (simp only: p2_less_iff)
  then show ?thesis by simp
qed

lemma rhe_range: "of_int (round_half_even a) - 1 / 2 \<le> a \<and> a \<le> of_int (round_half_even a) + 1 / 2"
  unfolding round_half_even_def Let_def by (auto; linarith)

lemma rhe_int [simp]: "round_half_even (of_int n) = n"
  by (simp add: round_half_even_def)

lemma rhe_mono: "a \<le> b \<Longrightarrow> round_half_even a \<le> round_half_even b"
proof -
  assume ab: "a \<le> b"
  then have fl: "\<lfloor>a\<rfloor> \<le> \<lfloor>b\<rfloor>" by (rule floor_mono)
  show ?thesis
  proof (cases "\<lfloor>a\<rfloor> = \<lfloor>b\<rfloor>")
    case True
    with ab show ?thesis unfolding round_half_even_def Let_def by auto
  next
    case False
    with fl have "\<lfloor>a\<rfloor> + 1 \<le> \<lfloor>b\<rfloor>" by simp
    moreover have "round_half_even a \<le> \<lfloor>a\<rfloor> + 1"
      unfolding round_half_even_def Let_def by auto
    moreover have "\<lfloor>b\<rfloor> \<le> round_half_even b"
      unfolding round_half_even_def Let_def by auto
    ultimately show ?thesis by linarith
  qed
qed

lemma rhe_minus: "round_half_even (- a) = - round_half_even a"
proof (cases "a = of_int \<lfloor>a\<rfloor>")
  case True
  then obtain n where "a = of_int n" by blast
  then have "- a = of_int (- n)" by simp
  then show ?thesis unfolding \<open>a = of_int n\<close> by (simp only: rhe_int)
next
  case False
  then have c: "\<lfloor>- a\<rfloor> = - \<lfloor>a\<rfloor> - 1"
    by (metis ceiling_altdef ceiling_def add_diff_cancel_right' diff_minus_eq_add minus_diff_eq uminus_add_conv_diff)
  have d: "a - of_int \<lfloor>a\<rfloor> < 1" "0 < a - of_int \<lfloor>a\<rfloor>"
    using False by linarith+
  show ?thesis
    unfolding round_half_even_def Let_def c using d
    by (auto simp: algebra_simps)
qed

lemma quantum_pos: "0 < quantum x"
  by (simp add: quantum_def)

lemma quantum_minus: "quantum (- x) = quantum x"
  by (simp add: quantum_def)

lemma rnd_minus: "rnd (- x) = - rnd x"
  by (simp add: rnd_def quantum_minus rhe_minus)

lemma rnd_0: "rnd 0 = 0"
  using rhe_int [of 0] by (simp add: rnd_def)

lemma rnd_nonneg: "0 \<le> x \<Longrightarrow> 0 \<le> rnd x"
proof -
  assume "0 \<le> x"
  then have "of_int 0 \<le> x / quantum x" using quantum_pos [of x] by simp
  then have "round_half_even (of_int 0) \<le> round_half_even (x / quantum x)" by (rule rhe_mono)
  then have "0 \<le> round_half_even (x / quantum x)" by (simp only: rhe_int)
  then show ?thesis unfolding rnd_def using quantum_pos [of x] by simp
qed

lemma rnd_mono_pos:
  assumes "0 < x" "x \<le> y"
  shows "rnd x \<le> rnd y"
proof -
  from assms have y: "0 < y" by simp
  define ex where "ex = ilog2 x"
  define ey where "ey = ilog2 y"
  define kx where "kx = max (ex - 52) (- 1074)"
  define ky where "ky = max (ey - 52) (- 1074)"
  have qx: "quantum x = 2 powi kx" using assms(1) by (simp add: quantum_def kx_def ex_def)
  have qy: "quantum y = 2 powi ky" using y by (simp add: quantum_def ky_def ey_def)
  have exy: "ex \<le> ey" unfolding ex_def ey_def using assms by (rule ilog2_mono)
  then have kxy: "kx \<le> ky" unfolding kx_def ky_def by simp
  show ?thesis
  proof (cases "kx = ky")
    case True
    have "x / 2 powi ky \<le> y / 2 powi ky"
      using assms(2) p2_pos [of ky] by (simp add: divide_right_mono)
    then have "round_half_even (x / 2 powi ky) \<le> round_half_even (y / 2 powi ky)" by (rule rhe_mono)
    then show ?thesis unfolding rnd_def qx qy True using p2_pos [of ky] by simp
  next
    case False
    with kxy have lt: "kx < ky" by simp
    then have ky: "ky = ey - 52" unfolding ky_def kx_def by auto
    from lt have "ex - 52 < ey - 52" unfolding ky kx_def by auto
    then have e1: "ex + 1 \<le> ey" by simp
    have d: "0 \<le> ey - kx" using lt ky by simp
    from ilog2_bounds [OF assms(1)] have "x < 2 powi (ex + 1)" by (simp add: ex_def)
    also have "\<dots> \<le> 2 powi ey" using e1 by (simp only: p2_le_iff)
    finally have xb: "x \<le> 2 powi ey" by simp
    have split: "(2::real) powi ey = 2 powi kx * 2 powi (ey - kx)"
      using p2_add [of kx "ey - kx"] by simp
    have int: "(2::real) powi (ey - kx) = of_int (2 ^ nat (ey - kx))"
      using d by (simp add: power_int_nonneg_exp)
    have "x / 2 powi kx \<le> 2 powi (ey - kx)"
      using xb p2_pos [of kx] unfolding split by (simp add: field_simps)
    then have "round_half_even (x / 2 powi kx) \<le> round_half_even (of_int (2 ^ nat (ey - kx)))"
      unfolding int by (rule rhe_mono)
    then have "real_of_int (round_half_even (x / 2 powi kx)) \<le> 2 powi (ey - kx)"
      unfolding rhe_int int by simp
    then have up: "rnd x \<le> 2 powi ey"
      unfolding rnd_def qx split using p2_pos [of kx] by simp
    from ilog2_bounds [OF y] have yb: "2 powi ey \<le> y" by (simp add: ey_def)
    have split2: "(2::real) powi ey = 2 powi ky * 2 powi 52"
      using p2_add [of ky 52] unfolding ky by simp
    have int2: "(2::real) powi 52 = of_int (2 ^ 52)" by simp
    have "2 powi 52 \<le> y / 2 powi ky"
      using yb p2_pos [of ky] unfolding split2 by (simp add: field_simps)
    then have "round_half_even (of_int (2 ^ 52)) \<le> round_half_even (y / 2 powi ky)"
      unfolding int2 by (rule rhe_mono)
    then have "2 powi 52 \<le> real_of_int (round_half_even (y / 2 powi ky))"
      unfolding rhe_int int2 by linarith
    then have lo: "2 powi ey \<le> rnd y"
      unfolding rnd_def qy split2 using p2_pos [of ky] by simp
    from up lo show ?thesis by simp
  qed
qed

lemma rnd_mono: "x \<le> y \<Longrightarrow> rnd x \<le> rnd y"
proof -
  assume xy: "x \<le> y"
  consider "0 < x" | "x \<le> 0" "0 \<le> y" | "y < 0" by linarith
  then show ?thesis
  proof cases
    case 1
    then show ?thesis using xy by (rule rnd_mono_pos)
  next
    case 2
    have "0 \<le> rnd (- x)" using 2(1) by (intro rnd_nonneg) simp
    then have "rnd x \<le> 0" by (simp add: rnd_minus)
    moreover have "0 \<le> rnd y" using 2(2) by (rule rnd_nonneg)
    ultimately show ?thesis by simp
  next
    case 3
    then have "0 < - y" "- y \<le> - x" using xy by simp_all
    then have "rnd (- y) \<le> rnd (- x)" by (rule rnd_mono_pos)
    then show ?thesis by (simp add: rnd_minus)
  qed
qed

lemma rnd_fix_pos:
  assumes "- 1074 \<le> k" "0 < n" "n < 2 ^ 53"
  shows "rnd (2 powi k * of_int n) = 2 powi k * of_int n"
proof -
  define x :: real where "x = 2 powi k * of_int n"
  have xpos: "0 < x" unfolding x_def using assms(2) by simp
  define kx where "kx = max (ilog2 x - 52) (- 1074)"
  have qx: "quantum x = 2 powi kx" using xpos by (simp add: quantum_def kx_def)
  have "real_of_int n < 2 ^ 53" using assms(3) by (metis of_int_less_numeral_power_cancel_iff)
  then have "x < 2 powi k * 2 powi 53" unfolding x_def by simp
  then have "x < 2 powi (k + 53)" by (simp only: p2_add)
  with ilog2_bounds [OF xpos] have "(2::real) powi (ilog2 x) < 2 powi (k + 53)" by simp
  then have "ilog2 x < k + 53" by (simp only: p2_less_iff)
  then have le: "kx \<le> k" unfolding kx_def using assms(1) by simp
  have split: "(2::real) powi k = 2 powi kx * 2 powi (k - kx)"
    using p2_add [of kx "k - kx"] by simp
  have int: "(2::real) powi (k - kx) = of_int (2 ^ nat (k - kx))"
    using le by (simp add: power_int_nonneg_exp)
  have xk: "x = 2 powi kx * of_int (2 ^ nat (k - kx) * n)"
    unfolding x_def split int by simp
  have "x / quantum x = x / 2 powi kx" by (simp only: qx)
  also have "\<dots> = of_int (2 ^ nat (k - kx) * n)"
    unfolding xk using p2_pos [of kx] by simp
  finally have "x / quantum x = of_int (2 ^ nat (k - kx) * n)" .
  then have "round_half_even (x / quantum x) = 2 ^ nat (k - kx) * n"
    by (simp only: rhe_int)
  then have "rnd x = 2 powi kx * of_int (2 ^ nat (k - kx) * n)"
    unfolding rnd_def qx by simp
  also have "\<dots> = x" unfolding x_def split int by simp
  finally show ?thesis unfolding x_def .
qed

lemma rnd_fix:
  assumes "- 1074 \<le> k" "\<bar>n\<bar> \<le> 2 ^ 53"
  shows "rnd (2 powi k * of_int n) = 2 powi k * of_int n"
proof -
  have pos: "rnd (2 powi k * of_int m) = 2 powi k * of_int m" if "0 < m" "m \<le> 2 ^ 53" for m :: int
  proof (cases "m = 2 ^ 53")
    case True
    have "(2::real) powi k * of_int m = 2 powi (k + 1) * of_int (2 ^ 52)"
      unfolding True p2_Suc by simp
    moreover have "rnd (2 powi (k + 1) * of_int (2 ^ 52)) = 2 powi (k + 1) * of_int (2 ^ 52)"
      using assms(1) by (intro rnd_fix_pos) simp_all
    ultimately show ?thesis by simp
  next
    case False
    with that have "m < 2 ^ 53" by simp
    with assms(1) that(1) show ?thesis by (intro rnd_fix_pos)
  qed
  consider "n = 0" | "0 < n" | "n < 0" by linarith
  then show ?thesis
  proof cases
    case 1
    then show ?thesis by (simp add: rnd_0)
  next
    case 2
    from assms(2) have "n \<le> 2 ^ 53" by simp
    from pos [OF 2 this] show ?thesis .
  next
    case 3
    then have "0 < - n" by simp
    moreover from assms(2) 3 have "- n \<le> 2 ^ 53" by simp
    ultimately have "rnd (2 powi k * of_int (- n)) = 2 powi k * of_int (- n)"
      by (rule pos)
    then have "rnd (- (2 powi k * of_int n)) = - (2 powi k * of_int n)" by simp
    then show ?thesis unfolding rnd_minus by simp
  qed
qed

lemma rnd_form: "\<exists>k n. - 1074 \<le> k \<and> \<bar>n\<bar> \<le> 2 ^ 53 \<and> rnd x = 2 powi k * of_int n"
proof -
  have pos: "\<exists>k n. - 1074 \<le> k \<and> \<bar>n\<bar> \<le> 2 ^ 53 \<and> rnd y = 2 powi k * of_int n" if "0 < y" for y
  proof -
    define kx where "kx = max (ilog2 y - 52) (- 1074)"
    have qx: "quantum y = 2 powi kx" using that by (simp add: quantum_def kx_def)
    have ge: "ilog2 y - 52 \<le> kx" "- 1074 \<le> kx" unfolding kx_def by simp_all
    from ilog2_bounds [OF that] have "y < 2 powi (ilog2 y + 1)" by simp
    also have "\<dots> \<le> 2 powi (kx + 53)" using ge(1) by (simp add: p2_le_iff)
    also have "\<dots> = 2 powi kx * 2 powi 53" by (simp only: p2_add)
    finally have "y / 2 powi kx \<le> of_int (2 ^ 53)"
      using p2_pos [of kx] by (simp add: field_simps)
    then have "round_half_even (y / 2 powi kx) \<le> round_half_even (of_int (2 ^ 53))" by (rule rhe_mono)
    then have up: "round_half_even (y / 2 powi kx) \<le> 2 ^ 53" by (simp only: rhe_int)
    have "of_int 0 \<le> y / 2 powi kx" using that p2_pos [of kx] by simp
    then have "round_half_even (of_int 0) \<le> round_half_even (y / 2 powi kx)" by (rule rhe_mono)
    then have lo: "0 \<le> round_half_even (y / 2 powi kx)" by (simp only: rhe_int)
    show ?thesis
      using ge(2) up lo unfolding rnd_def qx
      by (intro exI [of _ kx] exI [of _ "round_half_even (y / 2 powi kx)"]) simp
  qed
  consider "x = 0" | "0 < x" | "x < 0" by linarith
  then show ?thesis
  proof cases
    case 1
    show ?thesis unfolding 1 rnd_0 by (intro exI [of _ 0] exI [of _ "0::int"]) simp
  next
    case 2
    then show ?thesis by (rule pos)
  next
    case 3
    then have "0 < - x" by simp
    from pos [OF this] obtain k n where kn: "- 1074 \<le> k" "\<bar>n\<bar> \<le> 2 ^ 53" "rnd (- x) = 2 powi k * of_int n"
      by blast
    then have "rnd x = 2 powi k * of_int (- n)" by (simp add: rnd_minus)
    with kn(1,2) show ?thesis by (intro exI [of _ k] exI [of _ "- n"]) simp
  qed
qed

lemma rnd_idem: "rnd (rnd x) = rnd x"
proof -
  from rnd_form [of x] obtain k n where "- 1074 \<le> k" "\<bar>n\<bar> \<le> 2 ^ 53" "rnd x = 2 powi k * of_int n"
    by blast
  then show ?thesis using rnd_fix [of k n] by simp
qed

lemma round64_not_NaN [simp]: "round64 x \<noteq> NaN"
  by (simp add: round64_def Let_def)

lemma round64_mono: "x \<le> y \<Longrightarrow> jsle (round64 x) (round64 y)"
  using rnd_mono [of x y] by (auto simp: round64_def Let_def)

lemma round64_is_double: "is_double (round64 x)"
  by (auto simp: is_double_def round64_def Let_def rnd_idem)

lemma round64_Fin_iff: "round64 x = Fin v \<longleftrightarrow> rnd x = v \<and> - (2 ^ 1024) < v \<and> v < 2 ^ 1024"
  by (auto simp: round64_def Let_def)

lemma round64_between:
  assumes "a \<le> x" "x \<le> b" "round64 a = Fin a" "round64 b = Fin b"
  shows "\<exists>v. round64 x = Fin v \<and> a \<le> v \<and> v \<le> b"
proof -
  from assms(3,4) have ab: "rnd a = a" "- (2 ^ 1024) < a" "rnd b = b" "b < 2 ^ 1024"
    by (simp_all add: round64_Fin_iff)
  from rnd_mono [OF assms(1)] rnd_mono [OF assms(2)] ab(1,3)
  have "a \<le> rnd x" "rnd x \<le> b" by simp_all
  with ab(2,4) show ?thesis by (simp add: round64_Fin_iff)
qed

lemma round64_int:
  assumes "\<bar>n\<bar> \<le> 2 ^ 53"
  shows "round64 (of_int n) = Fin (of_int n)"
proof -
  have "rnd (2 powi 0 * of_int n) = 2 powi 0 * of_int n"
    using assms by (intro rnd_fix) simp_all
  then have r: "rnd (of_int n) = of_int n" by simp
  have "\<bar>real_of_int n\<bar> \<le> 2 ^ 53" using assms by (metis of_int_abs of_int_le_numeral_power_cancel_iff)
  moreover have "(2::real) ^ 53 < 2 ^ 1024" by simp
  ultimately have "- (2 ^ 1024) < real_of_int n" "real_of_int n < 2 ^ 1024" by linarith+
  with r show ?thesis by (simp add: round64_Fin_iff)
qed

lemma jsle_refl: "x \<noteq> NaN \<Longrightarrow> jsle x x"
  by (cases x) simp_all

lemma jsle_trans: "jsle x y \<Longrightarrow> jsle y z \<Longrightarrow> jsle x z"
  by (cases x; cases y; cases z) simp_all

lemma jsle_NInf: "x \<noteq> NaN \<Longrightarrow> jsle NInf x"
  by (cases x) simp_all

lemma jsle_PInf: "x \<noteq> NaN \<Longrightarrow> jsle x PInf"
  by (cases x) simp_all

lemma fadd_mono_left:
  "jsle a a' \<Longrightarrow> jsle (fadd a (Fin v)) (fadd a' (Fin v))"
  by (cases a; cases a'; simp add: round64_mono jsle_NInf jsle_PInf)

lemma jitter_bounds:
  assumes "0 \<le> r" "r < 1"
  shows "\<exists>j. fmul (Fin r) (Fin 1000) = Fin j \<and> 0 \<le> j \<and> j \<le> 1000"
    and "\<exists>p. fadd (Fin 1000) (fmul (Fin r) (Fin 2000)) = Fin p \<and> 1000 \<le> p \<and> p \<le> 3000"
proof -
  have c0: "round64 0 = Fin 0"
    by (simp add: round64_def rnd_0)
  have c1: "round64 1000 = Fin 1000"
    by (simp add: round64_def rnd_def quantum_def ilog2.simps round_half_even_def)
  have c2: "round64 2000 = Fin 2000"
    by (simp add: round64_def rnd_def quantum_def ilog2.simps round_half_even_def)
  have c3: "round64 3000 = Fin 3000"
    by (simp add: round64_def rnd_def quantum_def ilog2.simps round_half_even_def)
  from assms have "0 \<le> r * 1000" "r * 1000 \<le> 1000" by simp_all
  from round64_between [OF this c0 c1]
  show "\<exists>j. fmul (Fin r) (Fin 1000) = Fin j \<and> 0 \<le> j \<and> j \<le> 1000" by simp
  from assms have "0 \<le> r * 2000" "r * 2000 \<le> 2000" by simp_all
  from round64_between [OF this c0 c2]
  obtain q where q: "round64 (r * 2000) = Fin q" "0 \<le> q" "q \<le> 2000" by blast
  then have "1000 \<le> 1000 + q" "1000 + q \<le> 3000" by simp_all
  from round64_between [OF this c1 c3] q(1)
  show "\<exists>p. fadd (Fin 1000) (fmul (Fin r) (Fin 2000)) = Fin p \<and> 1000 \<le> p \<and> p \<le> 3000" by simp
qed

lemma penalty_not_smaller:
  assumes "B \<noteq> NaN" "is_double B" "j \<le> 1000" "0 \<le> j1" "1000 \<le> p"
  shows "jsle (fadd B (Fin j)) (fadd (fadd B (Fin j1)) (Fin p))"
proof (cases B)
  case NaN
  with assms(1) show ?thesis by simp
next
  case NInf
  then show ?thesis by simp
next
  case PInf
  then show ?thesis by simp
next
  case (Fin b)
  with assms(2) have rb: "round64 b = Fin b" by (simp add: is_double_def)
  have "jsle (round64 b) (round64 (b + j1))" using assms(4) by (intro round64_mono) simp
  then have low: "jsle (Fin b) (round64 (b + j1))" by (simp only: rb)
  show ?thesis
  proof (cases "round64 (b + j1)")
    case NaN
    then show ?thesis by simp
  next
    case NInf
    with low show ?thesis by simp
  next
    case PInf
    then show ?thesis unfolding Fin by (simp add: jsle_PInf)
  next
    case f: (Fin f1)
    with low have "b \<le> f1" by simp
    with assms(3,5) have "b + j \<le> f1 + p" by simp
    then show ?thesis unfolding Fin by (simp add: f round64_mono)
  qed
qed

lemmas round64_eval = round64_def rnd_def quantum_def ilog2.simps round_half_even_def

lemma scaled_base:
  assumes "base \<noteq> NaN" "is_double base" "5 < c" "c \<le> 2 ^ 53"
  shows "fmul base (fadd (Fin 1) (fmul (fadd (num c) (Fin (- 5))) (round64 (2 / 10)))) \<noteq> NaN
    \<and> is_double (fmul base (fadd (Fin 1) (fmul (fadd (num c) (Fin (- 5))) (round64 (2 / 10)))))"
proof -
  have c0: "round64 0 = Fin 0" by (simp add: round64_def rnd_0)
  have c1: "round64 1 = Fin 1" by (simp add: round64_eval)
  have c53: "round64 (2 ^ 53) = Fin (2 ^ 53)"
    using round64_int [of "2 ^ 53"] by simp
  have c54: "round64 (2 ^ 54) = Fin (2 ^ 54)"
  proof -
    have "rnd (2 powi 1 * of_int (2 ^ 53)) = 2 powi 1 * of_int (2 ^ 53)"
      by (intro rnd_fix) simp_all
    then have "rnd (2 ^ 54) = 2 ^ 54" by simp
    then show ?thesis by (simp add: round64_Fin_iff)
  qed
  have d: "round64 (2 / 10) = Fin (3602879701896397 / 18014398509481984)"
    by (simp add: round64_eval)
  have nc: "num c = Fin (of_int c)"
    unfolding num_def using assms(3,4) by (intro round64_int) simp
  have "round64 (of_int (c - 5)) = Fin (of_int (c - 5))"
    using assms(3,4) by (intro round64_int) simp
  then have m5: "fadd (num c) (Fin (- 5)) = Fin (of_int (c - 5))"
    unfolding nc by simp
  have cb: "0 \<le> real_of_int (c - 5)" "real_of_int (c - 5) \<le> 2 ^ 53"
  proof -
    show "0 \<le> real_of_int (c - 5)" using assms(3) by simp
    have "c - 5 \<le> 2 ^ 53" using assms(4) by simp
    then show "real_of_int (c - 5) \<le> 2 ^ 53" by (metis of_int_le_numeral_power_cancel_iff)
  qed
  have "0 \<le> real_of_int (c - 5) * (3602879701896397 / 18014398509481984)"
    using cb(1) by simp
  moreover have "real_of_int (c - 5) * (3602879701896397 / 18014398509481984) \<le> 2 ^ 53"
    using cb by (simp add: mult_left_le)
  ultimately obtain v where v: "round64 (real_of_int (c - 5) * (3602879701896397 / 18014398509481984)) = Fin v"
      "0 \<le> v" "v \<le> 2 ^ 53"
    using round64_between [OF _ _ c0 c53] by blast
  then have "1 \<le> 1 + v" "1 + v \<le> 2 ^ 54" by simp_all
  from round64_between [OF this c1 c54]
  obtain f where f: "round64 (1 + v) = Fin f" "1 \<le> f" by blast
  have prod: "fmul (fadd (num c) (Fin (- 5))) (round64 (2 / 10)) = Fin v"
    unfolding m5 d fmul.simps by (rule v(1))
  have factor: "fadd (Fin 1) (fmul (fadd (num c) (Fin (- 5))) (round64 (2 / 10))) = Fin f"
    unfolding prod fadd.simps by (rule f(1))
  show ?thesis
    unfolding factor using assms(1) f(2)
    by (cases base) (simp_all add: is_double_def round64_is_double [unfolded is_double_def] split: jsnum.splits)
qed

lemma failure_term:
  assumes "0 < n" "n \<le> 2 ^ 53"
  shows "\<exists>v. fmul (num n) (Fin 1000) = Fin v"
proof -
  have c0: "round64 0 = Fin 0" by (simp add: round64_def rnd_0)
  have cb: "round64 (2 ^ 53 * 1000) = Fin (2 ^ 53 * 1000)"
    by (simp add: round64_eval)
  have nn: "num n = Fin (of_int n)"
    unfolding num_def using assms by (intro round64_int) simp
  have "real_of_int n \<le> 2 ^ 53" using assms(2) by (metis of_int_le_numeral_power_cancel_iff)
  then have "0 \<le> real_of_int n * 1000" "real_of_int n * 1000 \<le> 2 ^ 53 * 1000"
    using assms(1) by simp_all
  from round64_between [OF this c0 cb] show ?thesis
    unfolding nn by auto
qed

text \<open>
  Claim C8, as stated: with the same counters and the same base delay, and for every value
  of the random numbers, the delay computed 200 ms after the last request is strictly
  larger than the delay computed 5 s after it. With a base delay of 2000, the fast
  computation drawing 0 twice and the slow one drawing 1 - 1/4503599627370496, both delays
  are 3000: the sum \<open>2000 + 999.9999999999998\<close> rounds to 3000. Both the base delay and
  the number drawn are binary64 values.
\<close>

theorem adaptiveDelay_equal_counterexample:
  "is_double (Fin 2000) \<and> is_double (Fin (4503599627370495 / 4503599627370496))
   \<and> fst (adaptiveDelay (Fin 2000) 200 0 0 300 fresh_stats) = Fin 3000
   \<and> fst (adaptiveDelay (Fin 2000) 5000 (4503599627370495 / 4503599627370496) 0 5100 fresh_stats)
       = Fin 3000
   \<and> \<not> jslt (fst (adaptiveDelay (Fin 2000) 5000 (4503599627370495 / 4503599627370496) 0 5100 fresh_stats))
             (fst (adaptiveDelay (Fin 2000) 200 0 0 300 fresh_stats))"
proof -
  have a: "fst (adaptiveDelay (Fin 2000) 200 0 0 300 fresh_stats) = Fin 3000"
    by (simp add: adaptiveDelay_def fresh_stats_def round64_eval)
  have b: "fst (adaptiveDelay (Fin 2000) 5000 (4503599627370495 / 4503599627370496) 0 5100 fresh_stats)
       = Fin 3000"
    by (simp add: adaptiveDelay_def fresh_stats_def round64_eval)
  have c: "is_double (Fin 2000)" "is_double (Fin (4503599627370495 / 4503599627370496))"
    by (simp_all add: is_double_def round64_eval)
  show ?thesis unfolding a b using c by simp
qed

text \<open>
  With a base delay of \<open>NaN\<close> (the result of \<open>parseInt\<close> on a malformed setting)
  every delay is \<open>NaN\<close>, and no comparison of two delays holds.
\<close>

lemma adaptiveDelay_NaN_base: "fst (adaptiveDelay NaN now r1 r2 now_after stats) = NaN"
  by (simp add: adaptiveDelay_def Let_def)

text \<open>
  Claim C8, amended. Let the base delay be a JavaScript number other than \<open>NaN\<close>, let
  the two computations start from the same counters (\<open>consecutiveRequests\<close>,
  \<open>failedRequests\<close>, neither above 2 to the power 53, the largest count a number holds
  exactly), and let the random numbers be any values from 0 up to but excluding 1. Then the
  delay computed 200 ms after the last request is at least as large as the delay computed
  5 s after it: the penalty of the fast path is never lost, but rounding can make the two
  delays equal.
\<close>

theorem adaptiveDelay_fast_gap_not_shorter:
  assumes "base \<noteq> NaN" and "is_double base"
    and "consecutiveRequests s1 = consecutiveRequests s2"
    and "failedRequests s1 = failedRequests s2"
    and "consecutiveRequests s1 \<le> 2 ^ 53" and "failedRequests s1 \<le> 2 ^ 53"
    and "now1 - lastRequestTime s1 = 200"
    and "now2 - lastRequestTime s2 = 5000"
    and "0 \<le> r1" "r1 < 1" "0 \<le> r2" "r2 < 1"
    and "0 \<le> q1" "q1 < 1"
  shows "jsle (fst (adaptiveDelay base now2 q1 q2 after2 s2))
              (fst (adaptiveDelay base now1 r1 r2 after1 s1))"
proof -
  define B where "B =
     (if consecutiveRequests s1 > 5
      then fmul base (fadd (Fin 1)
             (fmul (fadd (num (consecutiveRequests s1)) (Fin (- 5))) (round64 (2 / 10))))
      else base)"
  have B: "B \<noteq> NaN" "is_double B"
    unfolding B_def using assms(1,2) scaled_base [OF assms(1,2) _ assms(5)] by auto
  from jitter_bounds(1) [OF assms(13,14)]
  obtain j where j: "fmul (Fin q1) (Fin 1000) = Fin j" "j \<le> 1000" by blast
  from jitter_bounds(1) [OF assms(9,10)]
  obtain j1 where j1: "fmul (Fin r1) (Fin 1000) = Fin j1" "0 \<le> j1" by blast
  from jitter_bounds(2) [OF assms(11,12)]
  obtain p where p: "fadd (Fin 1000) (fmul (Fin r2) (Fin 2000)) = Fin p" "1000 \<le> p" by blast
  have core: "jsle (fadd B (Fin j)) (fadd (fadd B (Fin j1)) (Fin p))"
    using B j(2) j1(2) p(2) by (rule penalty_not_smaller)
  have slow: "fst (adaptiveDelay base now2 q1 q2 after2 s2) =
      (if failedRequests s1 > 0
       then fadd (fadd B (Fin j)) (fmul (num (failedRequests s1)) (Fin 1000))
       else fadd B (Fin j))"
    unfolding adaptiveDelay_def Let_def B_def assms(8) assms(3) [symmetric] assms(4) [symmetric] j(1) [symmetric]
    by simp
  have fast: "fst (adaptiveDelay base now1 r1 r2 after1 s1) =
      (if failedRequests s1 > 0
       then fadd (fadd (fadd B (Fin j1)) (Fin p)) (fmul (num (failedRequests s1)) (Fin 1000))
       else fadd (fadd B (Fin j1)) (Fin p))"
    unfolding adaptiveDelay_def Let_def B_def assms(7) j1(1) [symmetric] p(1) [symmetric]
    by simp
  show ?thesis
  proof (cases "failedRequests s1 > 0")
    case True
    from failure_term [OF True assms(6)] obtain v where v: "fmul (num (failedRequests s1)) (Fin 1000) = Fin v"
      by blast
    show ?thesis unfolding slow fast v using True core by (simp add: fadd_mono_left)
  next
    case False
    then show ?thesis unfolding slow fast using core by simp
  qed
qed

theorem adaptiveDelay_fast_gap_not_shorter_witness:
  "jsle (fst (adaptiveDelay (Fin 2000) 5000 (1 / 2) 0 5100 fresh_stats))
        (fst (adaptiveDelay (Fin 2000) 200 0 0 300 fresh_stats))
   \<and> fst (adaptiveDelay (Fin 2000) 5000 (1 / 2) 0 5100 fresh_stats) = Fin 2500"
proof -
  have d: "is_double (Fin 2000)"
    by (simp add: is_double_def round64_eval)
  have "jsle (fst (adaptiveDelay (Fin 2000) 5000 (1 / 2) 0 5100 fresh_stats))
        (fst (adaptiveDelay (Fin 2000) 200 0 0 300 fresh_stats))"
    using d by (intro adaptiveDelay_fast_gap_not_shorter) (simp_all add: fresh_stats_def)
  moreover have "fst (adaptiveDelay (Fin 2000) 5000 (1 / 2) 0 5100 fresh_stats) = Fin 2500"
    by (simp add: adaptiveDelay_def fresh_stats_def round64_eval)
  ultimately show ?thesis by simp
qed

section \<open>The scroll loop\<close>

lemma scroll_loop_inv:
  "c \<le> maxScrolls \<Longrightarrow>
   c \<le> fst (scroll_loop heights l c) \<and> fst (scroll_loop heights l c) \<le> maxScrolls
   \<and> (fst (scroll_loop heights l c) < maxScrolls \<and> \<not> snd (scroll_loop heights l c) \<longrightarrow>
        c < fst (scroll_loop heights l c) \<and> 3 \<le> fst (scroll_loop heights l c)
        \<and> (\<exists>h. heights (fst (scroll_loop heights l c) - 1) = Some h
              \<and> (if fst (scroll_loop heights l c) = Suc c then h = l
                  else heights (fst (scroll_loop heights l c) - 2) = Some h)))"
proof (induction heights l c rule: scroll_loop.induct)
  case (1 heights lastHeight scrollCount)
  show ?case
  proof (cases "scrollCount < maxScrolls")
    case False
    with "1.prems" show ?thesis by (subst (1 2 3 4 5 6 7 8 9) scroll_loop.simps) simp
  next
    case lt: True
    show ?thesis
    proof (cases "heights scrollCount")
      case None
      with lt show ?thesis by (simp add: scroll_loop.simps)
    next
      case (Some newHeight)
      show ?thesis
      proof (cases "newHeight = lastHeight \<and> 3 \<le> Suc scrollCount")
        case True
        with lt Some show ?thesis by (simp add: scroll_loop.simps)
      next
        case False
        have eq: "scroll_loop heights lastHeight scrollCount = scroll_loop heights newHeight (Suc scrollCount)"
          using lt Some False by (subst scroll_loop.simps) auto
        have ih: "Suc scrollCount \<le> fst (scroll_loop heights newHeight (Suc scrollCount)) \<and>
          fst (scroll_loop heights newHeight (Suc scrollCount)) \<le> maxScrolls \<and>
          (fst (scroll_loop heights newHeight (Suc scrollCount)) < maxScrolls \<and>
            \<not> snd (scroll_loop heights newHeight (Suc scrollCount)) \<longrightarrow>
           Suc scrollCount < fst (scroll_loop heights newHeight (Suc scrollCount)) \<and>
           3 \<le> fst (scroll_loop heights newHeight (Suc scrollCount)) \<and>
           (\<exists>h. heights (fst (scroll_loop heights newHeight (Suc scrollCount)) - 1) = Some h \<and>
             (if fst (scroll_loop heights newHeight (Suc scrollCount)) = Suc (Suc scrollCount)
              then h = newHeight
              else heights (fst (scroll_loop heights newHeight (Suc scrollCount)) - 2) = Some h)))"
          using "1.IH" [OF lt Some False] lt by simp
        show ?thesis
          unfolding eq using ih Some
          by (auto split: if_splits simp: numeral_2_eq_2)
      qed
    qed
  qed
qed


text \<open>
  Claim C7. Whatever heights the page reports, the scroll loop begins at most 50
  iterations, and when it ends normally before the fiftieth, it has run at least three
  and the last two heights it read are equal.
\<close>

theorem scroll_loop_within_ceiling:
  "fst (scroll_loop heights lastHeight 0) \<le> 50
   \<and> (fst (scroll_loop heights lastHeight 0) < 50 \<and> \<not> snd (scroll_loop heights lastHeight 0)
        \<longrightarrow> 3 \<le> fst (scroll_loop heights lastHeight 0)
            \<and> (\<exists>h. heights (fst (scroll_loop heights lastHeight 0) - 1) = Some h
                  \<and> heights (fst (scroll_loop heights lastHeight 0) - 2) = Some h))"
  using scroll_loop_inv [of 0 heights lastHeight]
  by (auto simp: maxScrolls_def split: if_splits)

theorem scroll_loop_within_ceiling_witness:
  "scroll_loop (\<lambda>i. Some (if i < 7 then int i else 7)) 0 0 = (9, False)
   \<and> scroll_loop (\<lambda>i. Some (int i)) 0 0 = (50, False)"
proof -
  have a: "scroll_loop (\<lambda>i. Some (if i < 7 then int i else 7)) 0 0 = (9, False)"
    by (simp add: scroll_loop.simps maxScrolls_def)
  have b: "scroll_loop (\<lambda>i. Some (int i)) 0 0 = (50, False)"
    by (simp add: scroll_loop.simps maxScrolls_def)
  from a b scroll_loop_within_ceiling [of "\<lambda>i. Some (if i < 7 then int i else 7)" 0]
  show ?thesis by simp
qed

section \<open>Maker discovery\<close>





lemma take_partition:
  "take n (filter P xs @ filter (\<lambda>x. \<not> P x) xs)
     = take n (filter P xs) @ take (n - length (filter P xs)) (filter (\<lambda>x. \<not> P x) xs)"
  by simp



lemma processMakers_length: "length (fst (processMakers contact ms b)) \<le> length ms"
  by (induction ms arbitrary: b) (auto simp: split_beta split: option.splits intro: le_SucI)



lemma slice0_Nil: "slice0 c [] = []"
  by (simp add: slice0_def)










section \<open>The website cascade\<close>

lemma approach2_url: "fst (approach2 page b) = approach_result 2 page"
  by (simp add: approach_result_def approach2_def followRedirect_def Let_def split: nav_result.splits)

lemma approach_result_simps:
  "approach_result 1 page = approach1 page"
  "approach_result (Suc 0) page = approach1 page"
  "approach_result 3 page = approach3 page"
  "approach_result 4 page = approach4 page"
  "approach_result 5 page = approach5 page"
  "approach_result 6 page = approach6 page"
  by (simp_all add: approach_result_def)

lemma step_pure_fields:
  "websiteUrl (step_pure k f page st) = (if websiteUrl st = [] then f page else websiteUrl st)"
  "entered (step_pure k f page st) = (if websiteUrl st = [] then entered st @ [k] else entered st)"
  "browser (step_pure k f page st) = browser st"
  by (simp_all add: step_pure_def)

lemma step2_fields:
  "websiteUrl (step2 page st) = (if websiteUrl st = [] then approach_result 2 page else websiteUrl st)"
  "entered (step2 page st) = (if websiteUrl st = [] then entered st @ [2] else entered st)"
  "browser (step2 page st) = (if websiteUrl st = [] then snd (approach2 page (browser st)) else browser st)"
  by (simp_all add: step2_def split_beta approach2_url)

lemma cascade_fields:
  "entered (website_cascade page b) =
     (if approach_result 1 page \<noteq> [] then [1]
      else if approach_result 2 page \<noteq> [] then [1, 2]
      else if approach_result 3 page \<noteq> [] then [1, 2, 3]
      else if approach_result 4 page \<noteq> [] then [1, 2, 3, 4]
      else if approach_result 5 page \<noteq> [] then [1, 2, 3, 4, 5]
      else [1, 2, 3, 4, 5, 6])"
  "websiteUrl (website_cascade page b) =
     (if approach_result 1 page \<noteq> [] then approach_result 1 page
      else if approach_result 2 page \<noteq> [] then approach_result 2 page
      else if approach_result 3 page \<noteq> [] then approach_result 3 page
      else if approach_result 4 page \<noteq> [] then approach_result 4 page
      else if approach_result 5 page \<noteq> [] then approach_result 5 page
      else approach_result 6 page)"
  "browser (website_cascade page b) =
     (if approach1 page \<noteq> [] then b else snd (approach2 page b))"
proof -
  define st1 where "st1 = \<lparr>websiteUrl = approach1 page, entered = [1], browser = b\<rparr>"
  define st2 where "st2 = step2 page st1"
  define st3 where "st3 = step_pure 3 approach3 page st2"
  define st4 where "st4 = step_pure 4 approach4 page st3"
  define st5 where "st5 = step_pure 5 approach5 page st4"
  define st6 where "st6 = step_pure 6 approach6 page st5"
  have c: "website_cascade page b = st6"
    unfolding website_cascade_def Let_def st6_def st5_def st4_def st3_def st2_def st1_def ..
  have f1: "websiteUrl st1 = approach_result 1 page" "entered st1 = [1]" "browser st1 = b"
    by (simp_all add: st1_def approach_result_simps)
  have f2: "websiteUrl st2 = (if approach_result 1 page \<noteq> [] then approach_result 1 page
                              else approach_result 2 page)"
    "entered st2 = (if approach_result 1 page \<noteq> [] then [1] else [1, 2])"
    "browser st2 = (if approach1 page \<noteq> [] then b else snd (approach2 page b))"
    unfolding st2_def step2_fields f1 by (simp_all add: approach_result_simps)
  have f3: "websiteUrl st3 = (if approach_result 1 page \<noteq> [] then approach_result 1 page
      else if approach_result 2 page \<noteq> [] then approach_result 2 page
      else approach_result 3 page)"
    "entered st3 = (if approach_result 1 page \<noteq> [] then [1]
      else if approach_result 2 page \<noteq> [] then [1, 2] else [1, 2, 3])"
    "browser st3 = browser st2"
    unfolding st3_def step_pure_fields f2 by (simp_all add: approach_result_simps)
  have f4: "websiteUrl st4 = (if approach_result 1 page \<noteq> [] then approach_result 1 page
      else if approach_result 2 page \<noteq> [] then approach_result 2 page
      else if approach_result 3 page \<noteq> [] then approach_result 3 page
      else approach_result 4 page)"
    "entered st4 = (if approach_result 1 page \<noteq> [] then [1]
      else if approach_result 2 page \<noteq> [] then [1, 2]
      else if approach_result 3 page \<noteq> [] then [1, 2, 3] else [1, 2, 3, 4])"
    "browser st4 = browser st2"
    unfolding st4_def step_pure_fields f3 by (simp_all add: approach_result_simps)
  have f5: "websiteUrl st5 = (if approach_result 1 page \<noteq> [] then approach_result 1 page
      else if approach_result 2 page \<noteq> [] then approach_result 2 page
      else if approach_result 3 page \<noteq> [] then approach_result 3 page
      else if approach_result 4 page \<noteq> [] then approach_result 4 page
      else approach_result 5 page)"
    "entered st5 = (if approach_result 1 page \<noteq> [] then [1]
      else if approach_result 2 page \<noteq> [] then [1, 2]
      else if approach_result 3 page \<noteq> [] then [1, 2, 3]
      else if approach_result 4 page \<noteq> [] then [1, 2, 3, 4] else [1, 2, 3, 4, 5])"
    "browser st5 = browser st2"
    unfolding st5_def step_pure_fields f4 by (simp_all add: approach_result_simps)
  show "entered (website_cascade page b) =
     (if approach_result 1 page \<noteq> [] then [1]
      else if approach_result 2 page \<noteq> [] then [1, 2]
      else if approach_result 3 page \<noteq> [] then [1, 2, 3]
      else if approach_result 4 page \<noteq> [] then [1, 2, 3, 4]
      else if approach_result 5 page \<noteq> [] then [1, 2, 3, 4, 5]
      else [1, 2, 3, 4, 5, 6])"
    unfolding c st6_def step_pure_fields f5 by (simp add: approach_result_simps)
  show "websiteUrl (website_cascade page b) =
     (if approach_result 1 page \<noteq> [] then approach_result 1 page
      else if approach_result 2 page \<noteq> [] then approach_result 2 page
      else if approach_result 3 page \<noteq> [] then approach_result 3 page
      else if approach_result 4 page \<noteq> [] then approach_result 4 page
      else if approach_result 5 page \<noteq> [] then approach_result 5 page
      else approach_result 6 page)"
    unfolding c st6_def step_pure_fields f5 by (simp add: approach_result_simps)
  show "browser (website_cascade page b) =
     (if approach1 page \<noteq> [] then b else snd (approach2 page b))"
    unfolding c st6_def step_pure_fields f5 f2 ..
qed



text \<open>
  Claim C3, as stated: in the text-pattern approach a candidate URL on bebop.ai is
  rejected unless the page text mentions the domain at least 3 times or has at least 2
  links to it in the header area. Three mentions alone do not save the candidate: on a
  page with three mentions and no link to the domain the approach gives the empty website.
\<close>

theorem bebop_three_mentions_counterexample:
  "pattern_url bebop_thrice_page \<noteq> []
   \<and> str_includes (toLowerCase (pattern_url bebop_thrice_page)) ''bebop.ai''
   \<and> 3 \<le> bebopCount bebop_thrice_page
   \<and> approach5 bebop_thrice_page = []"
  by (simp add: approach5_def isBebopRealWebsite_def bebopCount_def bebopLinks_def
      bebop_thrice_page_def blank_page_def toLowerCase_def lower_chr_def startsWith_def)

text \<open>
  Claim C3, amended: a candidate URL on bebop.ai is kept exactly when the page text
  mentions the domain at least 3 times and, besides, there is a link to it in the header
  area (top below 300) or there are more than 5 mentions; otherwise it is rejected. So it
  is rejected whenever there are fewer than 3 mentions and fewer than 2 header links, and
  a page that mentions the domain twice and has no header link gives the empty website.
\<close>

theorem bebop_rejected_unless_corroborated:
  "(pattern_url page \<noteq> [] \<and> str_includes (toLowerCase (pattern_url page)) ''bebop.ai''
      \<and> \<not> (3 \<le> bebopCount page \<or> 2 \<le> length (filter (\<lambda>l. rect_top l < 300) (bebopLinks page)))
    \<longrightarrow> approach5 page = [])
   \<and> (pattern_url page \<noteq> [] \<and> str_includes (toLowerCase (pattern_url page)) ''bebop.ai''
      \<and> bebopCount page = 2 \<and> filter (\<lambda>l. rect_top l < 300) (bebopLinks page) = []
    \<longrightarrow> approach5 page = [])
   \<and> (pattern_url page \<noteq> [] \<and> str_includes (toLowerCase (pattern_url page)) ''bebop.ai''
    \<longrightarrow> (approach5 page \<noteq> [] \<longleftrightarrow>
           3 \<le> bebopCount page
           \<and> ((\<exists>l \<in> set (bebopLinks page). rect_top l < 300) \<or> 5 < bebopCount page)))"
  by (auto simp: approach5_def isBebopRealWebsite_def Let_def list_ex_iff)

section \<open>The claims at the example pages\<close>



lemma bebopCount_twice: "bebopCount bebop_twice_page = 2"
  by (simp add: bebopCount_def bebop_twice_page_def blank_page_def toLowerCase_def
      lower_chr_def startsWith_def)

theorem bebop_rejected_unless_corroborated_witness:
  "approach5 bebop_twice_page = []"
proof -
  have a: "pattern_url bebop_twice_page \<noteq> []"
    by (simp add: bebop_twice_page_def blank_page_def)
  have b: "str_includes (toLowerCase (pattern_url bebop_twice_page)) ''bebop.ai''"
    by (simp add: bebop_twice_page_def blank_page_def toLowerCase_def lower_chr_def startsWith_def)
  have c: "filter (\<lambda>l. rect_top l < 300) (bebopLinks bebop_twice_page) = []"
    by (simp add: bebopLinks_def bebop_twice_page_def blank_page_def)
  from a b c bebopCount_twice bebop_rejected_unless_corroborated [of bebop_twice_page]
  show ?thesis by simp
qed


section \<open>Open pages\<close>

lemma closePage_newPage: "closePage (newPage b) = b"
  by (simp add: closePage_def newPage_def)

lemma websiteContactLoop_pages: "snd (websiteContactLoop attempts n b) = b"
proof (induction attempts n b rule: websiteContactLoop.induct)
  case (1 attempts retryCount b)
  from "1.IH" show ?case
    by (subst websiteContactLoop.simps) (auto simp: closePage_newPage split: option.splits)
qed

lemma processMakers_pages: "snd (processMakers contact ms b) = b"
  by (induction ms arbitrary: b) (auto simp: split_beta closePage_newPage split: option.splits)

lemma approach2_pages:
  "snd (approach2 page b) =
     (if (\<exists>h \<in> set (anchor_hrefs page). startsWith h ''https://www.producthunt.com/r/'')
         \<and> redirect_nav page = NavThrows
      then newPage b else b)"
proof -
  have "(0 < length (filter (\<lambda>h. startsWith h ''https://www.producthunt.com/r/'') (anchor_hrefs page)))
      = (\<exists>h \<in> set (anchor_hrefs page). startsWith h ''https://www.producthunt.com/r/'')"
    by (simp add: filter_empty_conv)
  then show ?thesis
    unfolding approach2_def Let_def followRedirect_def
    by (simp add: closePage_newPage split: nav_result.splits)
qed

lemma getProductDetails_pages:
  "snd (getProductDetails cap page b) =
     (if page_opens page \<and> page_loads page \<and> approach1 page = []
         \<and> (\<exists>h \<in> set (anchor_hrefs page). startsWith h ''https://www.producthunt.com/r/'')
         \<and> redirect_nav page = NavThrows
      then newPage b else b)"
  unfolding getProductDetails_def Let_def split_beta
  by (simp add: websiteContactLoop_pages processMakers_pages cascade_fields(3)
      approach2_pages closePage_newPage)

text \<open>
  Claim C4. Every page opened during a call is closed when the call ends. The product
  page is, and so are the pages of the listing and of the contact extraction, but the page
  opened to follow the redirect link is closed only when the navigation does not throw:
  on a page whose redirect navigation times out, \<open>getProductDetails\<close> ends with one
  more open page than it began with.
\<close>

theorem redirect_page_left_open:
  "open_pages (snd (getProductDetails (Fin 3) redirect_timeout_page \<lparr>open_pages = 0\<rparr>)) = 1"
  unfolding getProductDetails_pages
  by (simp add: redirect_timeout_page_def blank_page_def approach1_def visitButtons_def
      firstHref_def newPage_def startsWith_def)

section \<open>The records of a run\<close>

lemma collectProducts_named:
  "\<forall>p \<in> set acc. p_name p \<noteq> [] \<and> p_url p \<noteq> [] \<Longrightarrow>
   \<forall>p \<in> set (collectProducts es acc). p_name p \<noteq> [] \<and> p_url p \<noteq> []"
proof (induction es arbitrary: acc)
  case Nil
  then show ?case by simp
next
  case (Cons e es)
  define nm where "nm = (if trim (pe_text e) = [] then
               (case pe_nameElement e of Some t \<Rightarrow> trim t | None \<Rightarrow> trim (pe_text e))
             else trim (pe_text e))"
  define u where "u = ''https://www.producthunt.com'' @ pe_href e"
  have step: "collectProducts (e # es) acc =
      (if pe_href e \<noteq> [] \<and> nm \<noteq> [] \<and> \<not> list_ex (\<lambda>p. p_url p = u) acc
       then collectProducts es (acc @ [\<lparr>p_name = nm, p_url = u\<rparr>])
       else collectProducts es acc)"
    unfolding nm_def u_def collectProducts.simps Let_def ..
  have une: "u \<noteq> []"
    unfolding u_def by simp
  show ?case
  proof (cases "pe_href e \<noteq> [] \<and> nm \<noteq> [] \<and> \<not> list_ex (\<lambda>p. p_url p = u) acc")
    case True
    then have eq: "collectProducts (e # es) acc = collectProducts es (acc @ [\<lparr>p_name = nm, p_url = u\<rparr>])"
      unfolding step by (rule if_P)
    have "\<forall>p \<in> set (acc @ [\<lparr>p_name = nm, p_url = u\<rparr>]). p_name p \<noteq> [] \<and> p_url p \<noteq> []"
      using Cons.prems True une by auto
    from Cons.IH [OF this] show ?thesis unfolding eq .
  next
    case False
    then have eq: "collectProducts (e # es) acc = collectProducts es acc"
      unfolding step by (rule if_not_P)
    from Cons.IH [OF Cons.prems] show ?thesis unfolding eq .
  qed
qed

lemma addUnique_subset:
  "set (fst (addUnique path ps acc)) \<subseteq> set (fst acc) \<union> set ps"
proof (induction ps arbitrary: acc)
  case Nil
  show ?case by simp
next
  case (Cons p ps)
  obtain us seen where acc: "acc = (us, seen)" by (cases acc)
  show ?case
    using Cons.IH [of "(us @ [p], insert (p_url p) seen)"] Cons.IH [of "(us, seen)"]
    by (auto simp: acc)
qed

lemma productLinks_named: "\<forall>p \<in> set (productLinks links). p_name p \<noteq> [] \<and> p_url p \<noteq> []"
  by (simp add: productLinks_def)

lemma extractProducts_named:
  "\<forall>p \<in> set (extractProducts els links). p_name p \<noteq> [] \<and> p_url p \<noteq> []"
proof -
  have a: "\<forall>p \<in> set (collectProducts els []). p_name p \<noteq> [] \<and> p_url p \<noteq> []"
    by (rule collectProducts_named) simp
  have b: "set (fst (addUnique ''/products/'' (collectProducts els []) ([], {})))
        \<subseteq> set (collectProducts els [])"
    using addUnique_subset [of "''/products/''" "collectProducts els []" "([], {})"] by simp
  have c: "set (fst (addUnique ''/posts/'' (productLinks links)
                 (addUnique ''/products/'' (collectProducts els []) ([], {}))))
        \<subseteq> set (collectProducts els []) \<union> set (productLinks links)"
    using addUnique_subset [of "''/posts/''" "productLinks links"
        "addUnique ''/products/'' (collectProducts els []) ([], {})"] b by blast
  show ?thesis
    unfolding extractProducts_def Let_def
    using a b c productLinks_named [of links] by (auto split: if_splits)
qed

lemma productRecords_nonempty: "productRecords cap date p outcome \<noteq> []"
  by (simp add: productRecords_def Let_def split: option.splits)

lemma productRecords_product:
  "r \<in> set (productRecords cap date p outcome) \<Longrightarrow> productName r = p_name p \<and> productUrl r = p_url p"
  by (auto simp: productRecords_def Let_def makerRecord_def noMakerRecord_def errorRecord_def
      split: option.splits if_splits)

lemma productRecords_no_makers:
  assumes "outcome = None \<or> (\<exists>d. outcome = Some d \<and> makers d = [])"
  shows "\<exists>r. productRecords cap date p outcome = [r] \<and> makerName r = [] \<and> makerUrl r = []
      \<and> email_out r = [] \<and> xId r = [] \<and> linkedinUrl r = []
      \<and> productName r = p_name p \<and> productUrl r = p_url p"
  using assms
  by (auto simp: productRecords_def Let_def noMakerRecord_def errorRecord_def slice0_Nil)

lemma processProducts_blocks:
  "\<exists>blocks. fst (processProducts cap date pages ps b) = concat blocks
     \<and> list_all2 (\<lambda>p blk. \<exists>b'. blk = productRecords cap date p
                                 (fst (getProductDetails cap (pages (p_url p)) b'))) ps blocks"
proof (induction ps arbitrary: b)
  case Nil
  show ?case by simp
next
  case (Cons p ps)
  from Cons.IH [of "snd (getProductDetails cap (pages (p_url p)) b)"]
  obtain blocks where bl:
    "fst (processProducts cap date pages ps (snd (getProductDetails cap (pages (p_url p)) b)))
       = concat blocks"
    "list_all2 (\<lambda>p blk. \<exists>b'. blk = productRecords cap date p
                                 (fst (getProductDetails cap (pages (p_url p)) b'))) ps blocks"
    by blast
  show ?case
  proof (intro exI [of _ "productRecords cap date p (fst (getProductDetails cap (pages (p_url p)) b)) # blocks"] conjI)
    show "fst (processProducts cap date pages (p # ps) b)
        = concat (productRecords cap date p (fst (getProductDetails cap (pages (p_url p)) b)) # blocks)"
      using bl(1) by (simp add: split_beta Let_def)
    show "list_all2 (\<lambda>p blk. \<exists>b'. blk = productRecords cap date p
                                 (fst (getProductDetails cap (pages (p_url p)) b')))
        (p # ps) (productRecords cap date p (fst (getProductDetails cap (pages (p_url p)) b)) # blocks)"
      using bl(2) by auto
  qed
qed


lemma scrape_listing:
  assumes "fst (scrapeProductHunt maxProducts cap date lb pages b) = Some records"
  shows "\<exists>b1. records = fst (processProducts cap date pages
                 (slice0 maxProducts (extractProducts (lb_productElements lb) (lb_postLinks lb))) b1)"
proof -
  define products where "products = extractProducts (lb_productElements lb) (lb_postLinks lb)"
  obtain res b1 where g: "getProductsFromLeaderboard lb b = (res, b1)"
    by (cases "getProductsFromLeaderboard lb b")
  show ?thesis
  proof (cases res)
    case None
    with g assms show ?thesis by (simp add: scrapeProductHunt_def)
  next
    case (Some ps)
    have "ps = products"
      using g Some unfolding products_def getProductsFromLeaderboard_def Let_def
      by (simp split: if_splits)
    with g Some have l: "getProductsFromLeaderboard lb b = (Some products, b1)" by simp
    show ?thesis
    proof (cases "length products = 0")
      case True
      with assms l have "records = []" by (simp add: scrapeProductHunt_def)
      with True show ?thesis unfolding products_def [symmetric] by (simp add: slice0_Nil)
    next
      case False
      with assms l have "records = fst (processProducts cap date pages (slice0 maxProducts products) b1)"
        by (simp add: scrapeProductHunt_def Let_def split_beta)
      then show ?thesis unfolding products_def by blast
    qed
  qed
qed

lemma scrape_blocks:
  assumes "fst (scrapeProductHunt maxProducts cap date lb pages b) = Some records"
  shows "\<exists>blocks. records = concat blocks
         \<and> list_all2
             (\<lambda>p blk. p_name p \<noteq> [] \<and> p_url p \<noteq> [] \<and> blk \<noteq> []
                \<and> (\<forall>r \<in> set blk. productName r = p_name p \<and> productUrl r = p_url p)
                \<and> (\<exists>b'. blk = productRecords cap date p
                                 (fst (getProductDetails cap (pages (p_url p)) b'))))
             (slice0 maxProducts (extractProducts (lb_productElements lb) (lb_postLinks lb)))
             blocks"
proof -
  define products where "products = slice0 maxProducts (extractProducts (lb_productElements lb) (lb_postLinks lb))"
  from scrape_listing [OF assms] obtain b1 where
    rec: "records = fst (processProducts cap date pages products b1)"
    unfolding products_def by blast
  from processProducts_blocks [of cap date pages products b1]
  obtain blocks where bl: "records = concat blocks"
    "list_all2 (\<lambda>p blk. \<exists>b'. blk = productRecords cap date p
                                 (fst (getProductDetails cap (pages (p_url p)) b')))
       products blocks"
    unfolding rec by blast
  have named: "\<And>p. p \<in> set products \<Longrightarrow> p_name p \<noteq> [] \<and> p_url p \<noteq> []"
    using extractProducts_named [of "lb_productElements lb" "lb_postLinks lb"]
    unfolding products_def slice0_def by (auto dest: in_set_takeD)
  have "list_all2
         (\<lambda>p blk. p_name p \<noteq> [] \<and> p_url p \<noteq> [] \<and> blk \<noteq> []
            \<and> (\<forall>r \<in> set blk. productName r = p_name p \<and> productUrl r = p_url p)
            \<and> (\<exists>b'. blk = productRecords cap date p
                             (fst (getProductDetails cap (pages (p_url p)) b'))))
         products blocks"
    using bl(2)
  proof (rule list.rel_mono_strong)
    fix p blk
    assume p: "p \<in> set products" and "blk \<in> set blocks"
      and ex: "\<exists>b'. blk = productRecords cap date p (fst (getProductDetails cap (pages (p_url p)) b'))"
    from ex obtain b' where blk: "blk = productRecords cap date p (fst (getProductDetails cap (pages (p_url p)) b'))"
      by blast
    have 1: "p_name p \<noteq> [] \<and> p_url p \<noteq> []" using named [OF p] .
    have 2: "blk \<noteq> []" unfolding blk by (rule productRecords_nonempty)
    have 3: "\<forall>r \<in> set blk. productName r = p_name p \<and> productUrl r = p_url p"
      unfolding blk using productRecords_product by blast
    from 1 2 3 ex
    show "p_name p \<noteq> [] \<and> p_url p \<noteq> [] \<and> blk \<noteq> []
            \<and> (\<forall>r \<in> set blk. productName r = p_name p \<and> productUrl r = p_url p)
            \<and> (\<exists>b'. blk = productRecords cap date p
                             (fst (getProductDetails cap (pages (p_url p)) b')))"
      by blast
  qed
  with bl(1) show ?thesis unfolding products_def by blast
qed

text \<open>
  Claim C5. In a run, the records are the concatenation of one non-empty block per
  processed product (the products of the listing kept by \<open>slice(0, maxProducts)\<close>,
  whatever number \<open>maxProducts\<close> is); every product of
  the listing has a non-empty name and URL, and every record of its block carries them.
  This holds also when \<open>getProductDetails\<close> throws. A product for which no maker
  resolves contributes exactly one record, whose maker name, maker URL, e-mail, X id and
  LinkedIn URL are empty.
\<close>

theorem every_product_has_a_record:
  "(fst (scrapeProductHunt maxProducts cap date lb pages b) = Some records \<longrightarrow>
      (\<exists>blocks. records = concat blocks
         \<and> list_all2
             (\<lambda>p blk. p_name p \<noteq> [] \<and> p_url p \<noteq> [] \<and> blk \<noteq> []
                \<and> (\<forall>r \<in> set blk. productName r = p_name p \<and> productUrl r = p_url p)
                \<and> (\<exists>b'. blk = productRecords cap date p
                                 (fst (getProductDetails cap (pages (p_url p)) b'))))
             (slice0 maxProducts (extractProducts (lb_productElements lb) (lb_postLinks lb)))
             blocks))
   \<and> productRecords cap date p outcome \<noteq> []
   \<and> (\<forall>r \<in> set (productRecords cap date p outcome).
         productName r = p_name p \<and> productUrl r = p_url p)
   \<and> (outcome = None \<or> (\<exists>d. outcome = Some d \<and> makers d = []) \<longrightarrow>
        (\<exists>r. productRecords cap date p outcome = [r] \<and> makerName r = [] \<and> makerUrl r = []
           \<and> email_out r = [] \<and> xId r = [] \<and> linkedinUrl r = []
           \<and> productName r = p_name p \<and> productUrl r = p_url p))"
  using scrape_blocks [of maxProducts cap date lb pages b records]
    productRecords_nonempty [of cap date p outcome]
    productRecords_product [of _ cap date p outcome]
    productRecords_no_makers [of outcome cap date p]
  by blast

lemma one_product_run:
  "fst (scrapeProductHunt (Fin 30) (Fin 3) ''2025-03-17'' one_product_listing
          (\<lambda>u. blank_page\<lparr>page_opens := False\<rparr>) \<lparr>open_pages = 0\<rparr>)
   = Some [errorRecord ''2025-03-17''
             \<lparr>p_name = ''Acme'', p_url = ''https://www.producthunt.com/products/acme''\<rparr>]"
  by (simp add: scrapeProductHunt_def getProductsFromLeaderboard_def one_product_listing_def
      scroll_loop.simps maxScrolls_def extractProducts_def trim_def is_space_def startsWith_def
      productLinks_def getProductDetails_def blank_page_def productRecords_def Let_def
      slice0_def slice_end_def)

theorem every_product_has_a_record_witness:
  "fst (scrapeProductHunt (Fin 30) (Fin 3) ''2025-03-17'' one_product_listing
          (\<lambda>u. blank_page\<lparr>page_opens := False\<rparr>) \<lparr>open_pages = 0\<rparr>)
     = Some [errorRecord ''2025-03-17''
               \<lparr>p_name = ''Acme'', p_url = ''https://www.producthunt.com/products/acme''\<rparr>]
   \<and> (\<exists>r. productRecords (Fin 3) ''2025-03-17''
             \<lparr>p_name = ''Acme'', p_url = ''https://www.producthunt.com/products/acme''\<rparr> None = [r]
          \<and> makerName r = [] \<and> makerUrl r = [] \<and> email_out r = [] \<and> xId r = []
          \<and> linkedinUrl r = [] \<and> productName r = ''Acme'')"
proof -
  from every_product_has_a_record
    [of "Fin 30" "Fin 3" "''2025-03-17''" one_product_listing "\<lambda>u. blank_page\<lparr>page_opens := False\<rparr>"
        "\<lparr>open_pages = 0\<rparr>"
        "[errorRecord ''2025-03-17''
               \<lparr>p_name = ''Acme'', p_url = ''https://www.producthunt.com/products/acme''\<rparr>]"
        "\<lparr>p_name = ''Acme'', p_url = ''https://www.producthunt.com/products/acme''\<rparr>" None]
  have "\<exists>r. productRecords (Fin 3) ''2025-03-17''
             \<lparr>p_name = ''Acme'', p_url = ''https://www.producthunt.com/products/acme''\<rparr> None = [r]
          \<and> makerName r = [] \<and> makerUrl r = [] \<and> email_out r = [] \<and> xId r = []
          \<and> linkedinUrl r = []
          \<and> productName r = p_name \<lparr>p_name = ''Acme'', p_url = ''https://www.producthunt.com/products/acme''\<rparr>"
    by blast
  then show ?thesis
    using one_product_run by simp
qed

end
